theory Spec2Isabelle
  imports Main "HOL-Library.Word"
begin

section \<open>Values shared with the libraries\<close>

text \<open>
  The program (\<^verbatim>\<open>canceller.go\<close>) is a sequence of calls into the gowaves client, the
  gowaves crypto and proto packages and the Go standard library. None of these is part
  of the program: the pure ones are parameters collected in the record \<open>Lib\<close>, the
  node's answers are parameters collected in the record \<open>Node\<close>. What the program does
  with their results is modelled here, statement by statement.
\<close>

text \<open>
  A Go \<^verbatim>\<open>error\<close> value. \<^verbatim>\<open>errors.Is(err, context.Canceled)\<close> follows the chain of
  wrapped errors, so the chain is part of the value.
\<close>

datatype goerr = ContextCanceled | ErrorString string | Wrapped string goerr

fun errorsIsCanceled :: "goerr \<Rightarrow> bool" where
  "errorsIsCanceled ContextCanceled = True"
| "errorsIsCanceled (ErrorString _) = False"
| "errorsIsCanceled (Wrapped _ e) = errorsIsCanceled e"

text \<open>\<^verbatim>\<open>errors.Is\<close> on a possibly nil error: nil is not a cancellation.\<close>

fun isCanceled :: "goerr option \<Rightarrow> bool" where
  "isCanceled None = False"
| "isCanceled (Some e) = errorsIsCanceled e"

text \<open>A run-time panic of the Go program: the process aborts, no function returns.\<close>

datatype panic = NilPointerDereference | IndexOutOfRange

datatype 'a outcome = Returned 'a | Panicked panic

type_synonym byte = "8 word"
type_synonym uint64 = "64 word"
type_synonym Scheme = byte
type_synonym SecretKey = "byte list"
type_synonym PublicKey = "byte list"
type_synonym Address = "byte list"
type_synonym Digest = "byte list"

text \<open>The three sentinel errors of the program, and \<^verbatim>\<open>main\<close>'s exit codes for them.\<close>

datatype runerr = errInvalidParameters | errUserTermination | errFailure

fun exitCode :: "runerr option \<Rightarrow> nat" where
  "exitCode None = 0"
| "exitCode (Some errInvalidParameters) = 2"
| "exitCode (Some errUserTermination) = 130"
| "exitCode (Some errFailure) = 70"

definition defaultScheme :: string where
  "defaultScheme = ''http''"

definition standardFee :: uint64 where
  "standardFee = 100000"

text \<open>\<^verbatim>\<open>time.Second\<close>, in nanoseconds.\<close>

definition Second :: nat where
  "Second = 1000000000"

definition StatusOK :: int where
  "StatusOK = 200"

record AddressesExtraFee =
  ExtraFee :: uint64

text \<open>The fields of the library's structures that the program reads.\<close>

record Response =
  StatusCode :: int

record Client =
  BaseUrl :: string

record URL =
  UrlScheme :: string
  UrlRest :: string

record Request =
  Method :: string
  ReqUrl :: string

text \<open>
  A lease as the node lists it. The program dereferences \<^verbatim>\<open>txs[i].ID\<close>, a
  pointer: \<open>None\<close> is the nil pointer.
\<close>

record Lease =
  ID :: "Digest option"
  Amount :: uint64

record Block =
  Generator :: Address

record LeaseCancel =
  Version :: byte
  ChainID :: Scheme
  SenderPK :: PublicKey
  LeaseID :: Digest
  Fee :: uint64
  Timestamp :: uint64
  TxID :: "Digest option"
  Proofs :: "byte list list"

text \<open>
  Modelled from the spec: \<^verbatim>\<open>proto.NewUnsignedLeaseCancelWithProofs\<close> belongs to the
  gowaves library; the data model of the specification gives the unsigned form as
  version, scheme, sender public key, lease transaction id, fee and timestamp, with the
  identifier and the signature attached by signing.
\<close>

definition NewUnsignedLeaseCancelWithProofs ::
    "byte \<Rightarrow> Scheme \<Rightarrow> PublicKey \<Rightarrow> Digest \<Rightarrow> uint64 \<Rightarrow> uint64 \<Rightarrow> LeaseCancel" where
  "NewUnsignedLeaseCancelWithProofs v scheme pk lease fee ts =
     \<lparr>Version = v, ChainID = scheme, SenderPK = pk, LeaseID = lease, Fee = fee,
      Timestamp = ts, TxID = None, Proofs = []\<rparr>"

section \<open>The trace of a run\<close>

text \<open>Every line the program logs or prints, with the values it formats.\<close>

datatype logmsg =
    InvalidNodeURL string
  | InvalidPrivateKey string
  | NoDifferentPublicKey
  | DryRunNotice
  | FailedToConnect string goerr
  | SuccessfullyConnected string
  | FailedToAcquireScheme goerr
  | BlockchainScheme Scheme
  | FailedToParsePrivateKey goerr
  | FailedToParsePublicKey goerr
  | FailedToParseAddress goerr
  | AccountPublicKey PublicKey
  | AccountAddress Address
  | FailedToGetLeasings goerr
  | FoundLeasings nat Address string
  | FailedToCheckExtraFee Address goerr
  | ExtraFeeOnCancel string
  | NoExtraFee
  | FailedToSign goerr
  | FailedToMakeJSON goerr
  | CancelTransactionJSON nat string
  | CancelTransactionID nat Digest
  | FailedToBroadcast goerr
  | FailedToTrack goerr
  | TransactionsCreated nat
  | OK
  | WaitingForTransaction Digest

text \<open>
  What a run does, in order: the lines it writes, the requests it sends to the node with
  the answers it gets, the keys it derives, the transactions it builds and signs, and
  its sleeps.
\<close>

datatype event =
    Log logmsg
  | Usage
  | PrintVersion
  | CallHeight Client "goerr option"
  | CallLast Client "goerr + Block"
  | CallParseSK Scheme string
  | CallActive Client Address "goerr + Lease list"
  | CallDo Client Request "Response option" AddressesExtraFee "goerr option"
  | NewTx LeaseCancel
  | CallSign SecretKey LeaseCancel
  | CallMarshal LeaseCancel
  | CallBroadcast Client LeaseCancel "goerr option"
  | CallInfo Client Digest "Response option" "goerr option"
  | Sleep nat

text \<open>
  The state threaded through a run: the clock (nanoseconds since the epoch, what
  \<^verbatim>\<open>time.Now().UnixNano()\<close> reads) and the trace so far.
\<close>

record state =
  now :: nat
  trace :: "event list"

text \<open>
  Modelled from the spec: \<^verbatim>\<open>interruptListener\<close> is a function of this repository
  that is not among the sources. The specification says that the process listens for an
  external interrupt request for the whole run and propagates it as a cancellation
  context threaded through every network call. The context is modelled by the moment at
  which the interrupt arrives, if it ever does.
\<close>

record Context =
  doneAt :: "nat option"

text \<open>The pure library functions the program calls.\<close>

record Lib =
  Fields :: "string \<Rightarrow> string list"
  UrlParse :: "string \<Rightarrow> goerr + URL"
  UrlString :: "URL \<Rightarrow> string"
  NewClient :: "string \<Rightarrow> goerr + Client"
  NewRequest :: "string \<Rightarrow> string \<Rightarrow> goerr + Request"
  NewSecretKeyFromBase58 :: "string \<Rightarrow> goerr + SecretKey"
  GeneratePublicKey :: "SecretKey \<Rightarrow> PublicKey"
  NewPublicKeyFromBase58 :: "string \<Rightarrow> goerr + PublicKey"
  NewAddressFromPublicKey :: "Scheme \<Rightarrow> PublicKey \<Rightarrow> goerr + Address"
  AddressString :: "Address \<Rightarrow> string"
  Sign :: "Scheme \<Rightarrow> SecretKey \<Rightarrow> LeaseCancel \<Rightarrow> goerr + Digest \<times> byte list list"
  Marshal :: "LeaseCancel \<Rightarrow> goerr + string"
  FormattedString :: "int \<Rightarrow> int \<Rightarrow> string"

text \<open>
  The node and the network, as the client library presents them. An answer may depend
  on everything that has happened so far and on the time (the state), on the
  cancellation context and on the request. \<open>latency\<close> is the time a request takes;
  \<open>interruptAt\<close> is the moment the operator interrupts the process.
\<close>

record Node =
  interruptAt :: "nat option"
  latency :: "state \<Rightarrow> nat"
  Height :: "Context \<Rightarrow> state \<Rightarrow> Client \<Rightarrow> goerr option"
  Last :: "Context \<Rightarrow> state \<Rightarrow> Client \<Rightarrow> goerr + Block"
  Active :: "Context \<Rightarrow> state \<Rightarrow> Client \<Rightarrow> Address \<Rightarrow> goerr + Lease list"
  Do :: "Context \<Rightarrow> state \<Rightarrow> Client \<Rightarrow> Request \<Rightarrow>
           Response option \<times> AddressesExtraFee \<times> goerr option"
  Broadcast :: "Context \<Rightarrow> state \<Rightarrow> Client \<Rightarrow> LeaseCancel \<Rightarrow> goerr option"
  Info :: "Context \<Rightarrow> state \<Rightarrow> Client \<Rightarrow> Digest \<Rightarrow> Response option \<times> goerr option"

definition interruptListener :: "Node \<Rightarrow> Context" where
  "interruptListener w = \<lparr>doneAt = interruptAt w\<rparr>"

text \<open>Writing a line, and completing a request to the node (which takes its latency).\<close>

definition emit :: "event \<Rightarrow> state \<Rightarrow> state" where
  "emit e st = st\<lparr>trace := trace st @ [e]\<rparr>"

definition logf :: "logmsg \<Rightarrow> state \<Rightarrow> state" where
  "logf m st = emit (Log m) st"

definition request :: "Node \<Rightarrow> event \<Rightarrow> state \<Rightarrow> state" where
  "request w e st = \<lparr>now = now st + latency w st, trace = trace st @ [e]\<rparr>"

text \<open>\<^verbatim>\<open>time.Sleep(d)\<close>: the clock advances by \<open>d\<close>; no context is consulted.\<close>

definition timeSleep :: "nat \<Rightarrow> state \<Rightarrow> state" where
  "timeSleep d st = \<lparr>now = now st + d, trace = trace st @ [Sleep d]\<rparr>"

section \<open>The functions of the program\<close>

text \<open>\<^verbatim>\<open>timestamp\<close>: \<^verbatim>\<open>uint64(time.Now().UnixNano()) / 1000000\<close>.\<close>

definition timestamp :: "state \<Rightarrow> uint64" where
  "timestamp st = (word_of_nat (now st) :: uint64) div 1000000"

text \<open>\<^verbatim>\<open>format\<close>: \<^verbatim>\<open>fpd.New(int64(amount), -8)\<close>, formatted, with the unit.\<close>

definition format :: "Lib \<Rightarrow> uint64 \<Rightarrow> string" where
  "format lib amount = FormattedString lib (sint amount) (- 8) @ '' WAVES''"

text \<open>\<^verbatim>\<open>broadcast\<close>: one request, its error returned.\<close>

definition broadcast :: "Node \<Rightarrow> Context \<Rightarrow> Client \<Rightarrow> LeaseCancel \<Rightarrow> state \<Rightarrow> goerr option \<times> state" where
  "broadcast w ctx cl tx st =
     (let err = Broadcast w ctx st cl tx
      in (err, request w (CallBroadcast cl tx err) st))"

text \<open>
  \<^verbatim>\<open>track\<close>: the endless \<^verbatim>\<open>for\<close> loop. Each round sends the status query; a
  cancellation error returns it; otherwise the status code of the response is read
  (a nil response panics there); status 200 returns nil; anything else sleeps one second
  and goes round again. \<open>None\<close> is the loop that never returns.
\<close>

partial_function (option) track_for ::
    "Node \<Rightarrow> Context \<Rightarrow> Client \<Rightarrow> Digest \<Rightarrow> state \<Rightarrow> (goerr option outcome \<times> state) option" where
  "track_for w ctx cl txid st =
     (case Info w ctx st cl txid of (rsp, err) \<Rightarrow>
        (let st1 = request w (CallInfo cl txid rsp err) st in
         if isCanceled err then Some (Returned err, st1)
         else (case rsp of
                 None \<Rightarrow> Some (Panicked NilPointerDereference, st1)
               | Some r \<Rightarrow>
                   if StatusCode r = StatusOK then Some (Returned None, st1)
                   else track_for w ctx cl txid (timeSleep Second st1))))"

declare track_for.simps [code]

definition track ::
    "Node \<Rightarrow> Context \<Rightarrow> Client \<Rightarrow> Digest \<Rightarrow> state \<Rightarrow> (goerr option outcome \<times> state) option" where
  "track w ctx cl txid st = track_for w ctx cl txid (logf (WaitingForTransaction txid) st)"

text \<open>
  \<^verbatim>\<open>getActiveLeasings\<close>. The result slice is allocated with one zero digest per
  lease; round \<open>i\<close> adds the amount (a \<^verbatim>\<open>uint64\<close> addition) and stores the
  dereferenced identifier at index \<open>i\<close>.
\<close>

definition zeroDigest :: Digest where
  "zeroDigest = replicate 32 0"

fun getActiveLeasings_for ::
    "Lease list \<Rightarrow> nat \<Rightarrow> Digest list \<Rightarrow> uint64 \<Rightarrow> (Digest list \<times> uint64) outcome" where
  "getActiveLeasings_for [] i r amount = Returned (r, amount)"
| "getActiveLeasings_for (tx # txs) i r amount =
     (let amount' = amount + Amount tx in
      case ID tx of
        None \<Rightarrow> Panicked NilPointerDereference
      | Some d \<Rightarrow> getActiveLeasings_for txs (Suc i) (r[i := d]) amount')"

definition getActiveLeasings ::
    "Node \<Rightarrow> Context \<Rightarrow> Client \<Rightarrow> Address \<Rightarrow> state \<Rightarrow>
       (goerr + Digest list \<times> uint64) outcome \<times> state" where
  "getActiveLeasings w ctx cl addr st =
     (let res = Active w ctx st cl addr;
          st1 = request w (CallActive cl addr res) st
      in case res of
           Inl err \<Rightarrow> (Returned (Inl err), st1)
         | Inr txs \<Rightarrow>
             (case getActiveLeasings_for txs 0 (replicate (length txs) zeroDigest) 0 of
                Panicked p \<Rightarrow> (Panicked p, st1)
              | Returned ra \<Rightarrow> (Returned (Inr ra), st1)))"

text \<open>\<^verbatim>\<open>getExtraFee\<close>: the script-info request, decoded into \<^verbatim>\<open>AddressesExtraFee\<close>.\<close>

definition getExtraFee ::
    "Lib \<Rightarrow> Node \<Rightarrow> Context \<Rightarrow> Client \<Rightarrow> Address \<Rightarrow> state \<Rightarrow> (goerr + uint64) outcome \<times> state" where
  "getExtraFee lib w ctx cl addr st =
     (case NewRequest lib ''GET'' (BaseUrl cl @ ''/addresses/scriptInfo/'' @ AddressString lib addr) of
        Inl err \<Rightarrow> (Returned (Inl err), st)
      | Inr req \<Rightarrow>
          (case Do w ctx st cl req of (r, extraFee, err) \<Rightarrow>
             (let st1 = request w (CallDo cl req r extraFee err) st in
              case err of
                Some e \<Rightarrow> (Returned (Inl e), st1)
              | None \<Rightarrow>
                  (case r of
                     None \<Rightarrow> (Panicked NilPointerDereference, st1)
                   | Some rsp \<Rightarrow>
                       if StatusCode rsp \<noteq> StatusOK
                       then (Returned (Inl (ErrorString ''failed to get extra fee'')), st1)
                       else (Returned (Inr (ExtraFee extraFee)), st1)))))"

text \<open>\<^verbatim>\<open>strings.Contains\<close> on byte strings.\<close>

fun Contains :: "string \<Rightarrow> string \<Rightarrow> bool" where
  "Contains [] sub = (sub = [])"
| "Contains (c # cs) sub = (take (length sub) (c # cs) = sub \<or> Contains cs sub)"

text \<open>
  \<^verbatim>\<open>nodeClient\<close>: parse the URL, default and check its scheme, make the client and
  probe the node with the height query.
\<close>

definition nodeClient ::
    "Lib \<Rightarrow> Node \<Rightarrow> Context \<Rightarrow> string \<Rightarrow> state \<Rightarrow> (goerr + Client) \<times> state" where
  "nodeClient lib w ctx s st =
     (case (if Contains s ''//'' then UrlParse lib s else UrlParse lib (''//'' @ s)) of
        Inl err \<Rightarrow> (Inl err, st)
      | Inr u0 \<Rightarrow>
          (let u = (if UrlScheme u0 = [] then u0\<lparr>UrlScheme := defaultScheme\<rparr> else u0) in
           if UrlScheme u \<noteq> ''http'' \<and> UrlScheme u \<noteq> ''https''
           then (Inl (ErrorString (''unsupported URL scheme '' @ [CHR 0x27] @ UrlScheme u @ [CHR 0x27])), st)
           else (case NewClient lib (UrlString lib u) of
                   Inl err \<Rightarrow> (Inl err, st)
                 | Inr cl \<Rightarrow>
                     (let err = Height w ctx st cl;
                          st1 = request w (CallHeight cl err) st
                      in case err of
                           Some e \<Rightarrow> (Inl e, st1)
                         | None \<Rightarrow> (Inr cl, st1)))))"

text \<open>
  \<^verbatim>\<open>getScheme\<close>: the second byte of the generator address of the last block. Indexing
  a byte slice shorter than two bytes panics.
\<close>

definition getScheme ::
    "Node \<Rightarrow> Context \<Rightarrow> Client \<Rightarrow> state \<Rightarrow> (goerr + Scheme) outcome \<times> state" where
  "getScheme w ctx cl st =
     (let res = Last w ctx st cl;
          st1 = request w (CallLast cl res) st
      in case res of
           Inl err \<Rightarrow> (Returned (Inl err), st1)
         | Inr b \<Rightarrow>
             if 1 < length (Generator b) then (Returned (Inr (Generator b ! 1)), st1)
             else (Panicked IndexOutOfRange, st1))"

text \<open>\<^verbatim>\<open>parseSK\<close>: secret key, its public key, and the address of that public key.\<close>

definition parseSK ::
    "Lib \<Rightarrow> Scheme \<Rightarrow> string \<Rightarrow> goerr + SecretKey \<times> PublicKey \<times> Address" where
  "parseSK lib scheme s =
     (case NewSecretKeyFromBase58 lib s of
        Inl err \<Rightarrow> Inl err
      | Inr sk \<Rightarrow>
          (let pk = GeneratePublicKey lib sk in
           case NewAddressFromPublicKey lib scheme pk of
             Inl err \<Rightarrow> Inl err
           | Inr address \<Rightarrow> Inr (sk, pk, address)))"

text \<open>
  \<^verbatim>\<open>cancel.Sign(scheme, sk)\<close>: on success the library has attached the identifier and
  the proofs to the transaction; the other fields stay as they were built.
\<close>

definition signTx :: "Lib \<Rightarrow> Scheme \<Rightarrow> SecretKey \<Rightarrow> LeaseCancel \<Rightarrow> goerr + LeaseCancel" where
  "signTx lib scheme sk cancel =
     (case Sign lib scheme sk cancel of
        Inl err \<Rightarrow> Inl err
      | Inr (d, ps) \<Rightarrow> Inr (cancel\<lparr>TxID := Some d, Proofs := ps\<rparr>))"

text \<open>
  The \<^verbatim>\<open>for i, lease := range leasings\<close> loop of \<^verbatim>\<open>run\<close>. \<open>Returned None\<close> is the
  loop running to its end; \<open>Returned (Some e)\<close> is a \<^verbatim>\<open>return e\<close> inside it.
\<close>

fun run_for ::
    "Lib \<Rightarrow> Node \<Rightarrow> Context \<Rightarrow> Client \<Rightarrow> bool \<Rightarrow> Scheme \<Rightarrow> SecretKey \<Rightarrow> PublicKey \<Rightarrow> uint64 \<Rightarrow>
       nat \<Rightarrow> Digest list \<Rightarrow> state \<Rightarrow> (runerr option outcome \<times> state) option" where
  "run_for lib w ctx cl dry scheme sk pk fee i [] st = Some (Returned None, st)"
| "run_for lib w ctx cl dry scheme sk pk fee i (lease # leasings) st =
     (let cancel0 = NewUnsignedLeaseCancelWithProofs 2 scheme pk lease fee (timestamp st);
          st1 = emit (CallSign sk cancel0) (emit (NewTx cancel0) st)
      in case signTx lib scheme sk cancel0 of
           Inl err \<Rightarrow> Some (Returned (Some errFailure), logf (FailedToSign err) st1)
         | Inr cancel \<Rightarrow>
             if dry then
               (case Marshal lib cancel of
                  Inl err \<Rightarrow>
                    Some (Returned (Some errFailure),
                          logf (FailedToMakeJSON err) (emit (CallMarshal cancel) st1))
                | Inr b \<Rightarrow>
                    run_for lib w ctx cl dry scheme sk pk fee (i + 1) leasings
                      (logf (CancelTransactionJSON (i + 1) b) (emit (CallMarshal cancel) st1)))
             else
               (case TxID cancel of
                  None \<Rightarrow> Some (Panicked NilPointerDereference, st1)
                | Some txid \<Rightarrow>
                    (case broadcast w ctx cl cancel (logf (CancelTransactionID (i + 1) txid) st1) of
                       (Some err, st2) \<Rightarrow>
                         if errorsIsCanceled err then Some (Returned (Some errUserTermination), st2)
                         else Some (Returned (Some errFailure), logf (FailedToBroadcast err) st2)
                     | (None, st2) \<Rightarrow>
                         (case track w ctx cl txid st2 of
                            None \<Rightarrow> None
                          | Some (Panicked p, st3) \<Rightarrow> Some (Panicked p, st3)
                          | Some (Returned (Some err), st3) \<Rightarrow>
                              if errorsIsCanceled err
                              then Some (Returned (Some errUserTermination), st3)
                              else Some (Returned (Some errFailure), logf (FailedToTrack err) st3)
                          | Some (Returned None, st3) \<Rightarrow>
                              run_for lib w ctx cl dry scheme sk pk fee (i + 1) leasings st3))))"

text \<open>The command line, as \<^verbatim>\<open>flag.Parse\<close> leaves it.\<close>

record Flags =
  nodeURL :: string
  accountSK :: string
  accountPK :: string
  dryRun :: bool
  showHelp :: bool
  showVersion :: bool

text \<open>
  \<^verbatim>\<open>run\<close>, in the order of the source. It is cut where the source numbers its steps:
  \<open>run_cancel\<close> is the part from the extra-fee query to the end (lines 152 to 203),
  \<open>run_leasings\<close> the part from the lease query (lines 138 to 151), \<open>run_keys\<close> step 3
  (lines 120 to 137), \<open>run_scheme\<close> step 2 (lines 109 to 118), \<open>run_notices\<close> the
  two notices logged for the flags (lines 89 to 94), and \<open>run\<close> the flags and step 1.
\<close>

definition run_cancel ::
    "Lib \<Rightarrow> Node \<Rightarrow> Flags \<Rightarrow> Context \<Rightarrow> Client \<Rightarrow> Scheme \<Rightarrow> SecretKey \<Rightarrow> PublicKey \<Rightarrow> Address \<Rightarrow>
       Digest list \<Rightarrow> state \<Rightarrow> (runerr option outcome \<times> state) option" where
  "run_cancel lib w fl ctx cl scheme sk pk addr leasings st =
     (case getExtraFee lib w ctx cl addr st of
        (Panicked p, st1) \<Rightarrow> Some (Panicked p, st1)
      | (Returned (Inl err), st1) \<Rightarrow>
          if errorsIsCanceled err then Some (Returned (Some errUserTermination), st1)
          else Some (Returned (Some errFailure), logf (FailedToCheckExtraFee addr err) st1)
      | (Returned (Inr leaseExtraFee), st1) \<Rightarrow>
          (let st2 = (if leaseExtraFee \<noteq> 0 then logf (ExtraFeeOnCancel (format lib leaseExtraFee)) st1
                      else logf NoExtraFee st1);
               fee = standardFee + leaseExtraFee
           in case run_for lib w ctx cl (dryRun fl) scheme sk pk fee 0 leasings st2 of
                None \<Rightarrow> None
              | Some (Returned None, st3) \<Rightarrow>
                  Some (Returned None, logf OK (logf (TransactionsCreated (length leasings)) st3))
              | Some (res, st3) \<Rightarrow> Some (res, st3)))"

definition run_leasings ::
    "Lib \<Rightarrow> Node \<Rightarrow> Flags \<Rightarrow> Context \<Rightarrow> Client \<Rightarrow> Scheme \<Rightarrow> SecretKey \<Rightarrow> PublicKey \<Rightarrow> Address \<Rightarrow>
       state \<Rightarrow> (runerr option outcome \<times> state) option" where
  "run_leasings lib w fl ctx cl scheme sk pk addr st =
     (let st1 = logf (AccountAddress addr) (logf (AccountPublicKey pk) st) in
      case getActiveLeasings w ctx cl addr st1 of
        (Panicked p, st2) \<Rightarrow> Some (Panicked p, st2)
      | (Returned (Inl err), st2) \<Rightarrow>
          if errorsIsCanceled err then Some (Returned (Some errUserTermination), st2)
          else Some (Returned (Some errFailure), logf (FailedToGetLeasings err) st2)
      | (Returned (Inr (leasings, total')), st2) \<Rightarrow>
          run_cancel lib w fl ctx cl scheme sk pk addr leasings
            (logf (FoundLeasings (length leasings) addr (format lib total')) st2))"

definition run_keys ::
    "Lib \<Rightarrow> Node \<Rightarrow> Flags \<Rightarrow> Context \<Rightarrow> Client \<Rightarrow> Scheme \<Rightarrow> state \<Rightarrow>
       (runerr option outcome \<times> state) option" where
  "run_keys lib w fl ctx cl scheme st =
     (let st1 = emit (CallParseSK scheme (accountSK fl)) st in
      case parseSK lib scheme (accountSK fl) of
        Inl err \<Rightarrow> Some (Returned (Some errFailure), logf (FailedToParsePrivateKey err) st1)
      | Inr (sk, pk0, addr0) \<Rightarrow>
          if accountPK fl \<noteq> [] then
            (case NewPublicKeyFromBase58 lib (accountPK fl) of
               Inl err \<Rightarrow> Some (Returned (Some errFailure), logf (FailedToParsePublicKey err) st1)
             | Inr pk \<Rightarrow>
                 (case NewAddressFromPublicKey lib scheme pk of
                    Inl err \<Rightarrow> Some (Returned (Some errFailure), logf (FailedToParseAddress err) st1)
                  | Inr addr \<Rightarrow> run_leasings lib w fl ctx cl scheme sk pk addr st1))
          else run_leasings lib w fl ctx cl scheme sk pk0 addr0 st1)"

definition run_scheme ::
    "Lib \<Rightarrow> Node \<Rightarrow> Flags \<Rightarrow> Context \<Rightarrow> Client \<Rightarrow> state \<Rightarrow> (runerr option outcome \<times> state) option" where
  "run_scheme lib w fl ctx cl st =
     (case getScheme w ctx cl st of
        (Panicked p, st1) \<Rightarrow> Some (Panicked p, st1)
      | (Returned (Inl err), st1) \<Rightarrow>
          if errorsIsCanceled err then Some (Returned (Some errUserTermination), st1)
          else Some (Returned (Some errFailure), logf (FailedToAcquireScheme err) st1)
      | (Returned (Inr scheme), st1) \<Rightarrow>
          run_keys lib w fl ctx cl scheme (logf (BlockchainScheme scheme) st1))"

definition run_notices :: "Lib \<Rightarrow> Flags \<Rightarrow> state \<Rightarrow> state" where
  "run_notices lib fl st =
     (let st1 = (if accountPK fl = [] \<or> 1 < length (Fields lib (accountPK fl))
                 then logf NoDifferentPublicKey st else st)
      in if dryRun fl then logf DryRunNotice st1 else st1)"

definition run :: "Lib \<Rightarrow> Node \<Rightarrow> Flags \<Rightarrow> state \<Rightarrow> (runerr option outcome \<times> state) option" where
  "run lib w fl st =
     (if showHelp fl then Some (Returned None, emit Usage st)
      else if showVersion fl then Some (Returned None, emit PrintVersion st)
      else if nodeURL fl = [] \<or> 1 < length (Fields lib (nodeURL fl))
      then Some (Returned (Some errInvalidParameters), logf (InvalidNodeURL (nodeURL fl)) st)
      else if accountSK fl = [] \<or> 1 < length (Fields lib (accountSK fl))
      then Some (Returned (Some errInvalidParameters), logf (InvalidPrivateKey (accountSK fl)) st)
      else
        (let st2 = run_notices lib fl st;
             ctx = interruptListener w
         in case nodeClient lib w ctx (nodeURL fl) st2 of
              (Inl err, st3) \<Rightarrow>
                if errorsIsCanceled err then Some (Returned (Some errUserTermination), st3)
                else Some (Returned (Some errFailure), logf (FailedToConnect (nodeURL fl) err) st3)
            | (Inr cl, st3) \<Rightarrow>
                run_scheme lib w fl ctx cl (logf (SuccessfullyConnected (BaseUrl cl)) st3)))"

text \<open>
  \<^verbatim>\<open>main\<close>: the exit code of the process for what \<^verbatim>\<open>run\<close> returned; the usage text
  is shown first for invalid parameters.
\<close>

definition main :: "Lib \<Rightarrow> Node \<Rightarrow> Flags \<Rightarrow> state \<Rightarrow> (nat outcome \<times> state) option" where
  "main lib w fl st =
     (case run lib w fl st of
        None \<Rightarrow> None
      | Some (Panicked p, st1) \<Rightarrow> Some (Panicked p, st1)
      | Some (Returned err, st1) \<Rightarrow>
          Some (Returned (exitCode err),
                if err = Some errInvalidParameters then emit Usage st1 else st1))"

text \<open>The start of a process at time \<open>t\<close>: nothing has happened yet.\<close>

definition start :: "nat \<Rightarrow> state" where
  "start t = \<lparr>now = t, trace = []\<rparr>"

section \<open>Reading a trace\<close>

subsection \<open>The confirmation poll\<close>

text \<open>
  How \<^verbatim>\<open>track\<close> leaves its loop on the answer of a status query: with the error when
  it is a cancellation, by a panic when there is no response, with nil when the status
  is 200. \<open>track_again\<close> is the answer after which the loop goes round again, and
  \<open>track_round\<close> what such a round adds to the trace: the query and a sleep of one
  second. \<open>track_shape\<close> says that a run of the loop is a sequence of such rounds ended
  by one query that leaves it, and that it takes at least a second for each round.
\<close>

definition track_exit :: "Response option \<Rightarrow> goerr option \<Rightarrow> goerr option outcome \<Rightarrow> bool" where
  "track_exit rsp err out =
     (if isCanceled err then out = Returned err
      else case rsp of
             None \<Rightarrow> out = Panicked NilPointerDereference
           | Some x \<Rightarrow> StatusCode x = StatusOK \<and> out = Returned None)"

definition track_again :: "Response option \<times> goerr option \<Rightarrow> bool" where
  "track_again p = (\<not> isCanceled (snd p) \<and> (\<exists>x. fst p = Some x \<and> StatusCode x \<noteq> StatusOK))"

definition track_round :: "Client \<Rightarrow> Digest \<Rightarrow> Response option \<times> goerr option \<Rightarrow> event list" where
  "track_round cl txid p = [CallInfo cl txid (fst p) (snd p), Sleep Second]"

definition track_shape ::
    "Client \<Rightarrow> Digest \<Rightarrow> state \<Rightarrow> goerr option outcome \<times> state \<Rightarrow> bool" where
  "track_shape cl txid st y =
     (\<exists>polls rsp err.
        trace (snd y) = trace st @ concat (map (track_round cl txid) polls) @ [CallInfo cl txid rsp err] \<and>
        now st + length polls * Second \<le> now (snd y) \<and>
        (\<forall>p \<in> set polls. track_again p) \<and>
        track_exit rsp err (fst y))"

subsection \<open>The context of a request\<close>


subsection \<open>The transactions of a trace\<close>

text \<open>
  The transactions a run built (\<open>built\<close>), serialized (\<open>emitted\<close>) and broadcast
  (\<open>broadcasts\<close>), the identifiers it tracked (\<open>tracked\<close>) and the serializations it
  logged (\<open>logged\<close>), each in the order of the trace.
\<close>

fun builtOf :: "event \<Rightarrow> LeaseCancel list" where
  "builtOf (NewTx tx) = [tx]"
| "builtOf _ = []"

fun broadcastOf :: "event \<Rightarrow> LeaseCancel list" where
  "broadcastOf (CallBroadcast cl tx err) = [tx]"
| "broadcastOf _ = []"

fun emittedOf :: "event \<Rightarrow> LeaseCancel list" where
  "emittedOf (CallMarshal tx) = [tx]"
| "emittedOf _ = []"

fun trackedOf :: "event \<Rightarrow> Digest list" where
  "trackedOf (Log (WaitingForTransaction txid)) = [txid]"
| "trackedOf _ = []"

fun loggedOf :: "event \<Rightarrow> string list" where
  "loggedOf (Log (CancelTransactionJSON i b)) = [b]"
| "loggedOf _ = []"

definition built :: "event list \<Rightarrow> LeaseCancel list" where
  "built es = concat (map builtOf es)"

definition broadcasts :: "event list \<Rightarrow> LeaseCancel list" where
  "broadcasts es = concat (map broadcastOf es)"

definition emitted :: "event list \<Rightarrow> LeaseCancel list" where
  "emitted es = concat (map emittedOf es)"

definition tracked :: "event list \<Rightarrow> Digest list" where
  "tracked es = concat (map trackedOf es)"

definition logged :: "event list \<Rightarrow> string list" where
  "logged es = concat (map loggedOf es)"

text \<open>
  The signed form of a built transaction, when signing succeeds, and the serialization
  of a signed transaction, when serializing succeeds. \<open>loop_inv\<close> holds of the events
  of the loop at every moment: in preview mode the transactions serialized are the
  signed forms of those built, the serializations logged are those of the transactions
  serialized, and nothing is broadcast or tracked; otherwise the transactions broadcast
  are the signed forms of those built, and nothing is serialized.
\<close>

definition signed_of :: "Lib \<Rightarrow> Scheme \<Rightarrow> SecretKey \<Rightarrow> LeaseCancel \<Rightarrow> LeaseCancel list" where
  "signed_of lib scheme sk c0 = (case signTx lib scheme sk c0 of Inl err \<Rightarrow> [] | Inr c \<Rightarrow> [c])"

definition json_of :: "Lib \<Rightarrow> LeaseCancel \<Rightarrow> string list" where
  "json_of lib c = (case Marshal lib c of Inl err \<Rightarrow> [] | Inr b \<Rightarrow> [b])"

definition loop_inv :: "Lib \<Rightarrow> bool \<Rightarrow> Scheme \<Rightarrow> SecretKey \<Rightarrow> event list \<Rightarrow> bool" where
  "loop_inv lib dry scheme sk es =
     (if dry
      then emitted es = concat (map (signed_of lib scheme sk) (built es)) \<and>
           logged es = concat (map (json_of lib) (emitted es)) \<and>
           broadcasts es = [] \<and> tracked es = []
      else broadcasts es = concat (map (signed_of lib scheme sk) (built es)) \<and>
           emitted es = [] \<and> logged es = [])"

subsection \<open>The events of each step\<close>

text \<open>
  The events the loop can add to the trace, for the client, scheme, keys and fee it runs
  with. \<open>loop_done\<close> is what holds when the loop has run to its end, and \<open>loop_spec\<close>
  what holds of the events of a loop that returned \<open>out\<close>.
\<close>

fun loop_event ::
    "bool \<Rightarrow> Client \<Rightarrow> Scheme \<Rightarrow> SecretKey \<Rightarrow> PublicKey \<Rightarrow> uint64 \<Rightarrow> event \<Rightarrow> bool" where
  "loop_event dry cl scheme sk pk fee (NewTx tx) =
     (Version tx = 2 \<and> ChainID tx = scheme \<and> SenderPK tx = pk \<and> Fee tx = fee)"
| "loop_event dry cl scheme sk pk fee (CallSign sk' tx) = (sk' = sk)"
| "loop_event dry cl scheme sk pk fee (CallMarshal tx) = dry"
| "loop_event dry cl scheme sk pk fee (CallBroadcast cl' tx err) = (\<not> dry \<and> cl' = cl)"
| "loop_event dry cl scheme sk pk fee (CallInfo cl' txid rsp err) = (\<not> dry \<and> cl' = cl)"
| "loop_event dry cl scheme sk pk fee (Sleep d) = (\<not> dry \<and> d = Second)"
| "loop_event dry cl scheme sk pk fee (Log (WaitingForTransaction txid)) = (\<not> dry)"
| "loop_event dry cl scheme sk pk fee (Log m) = True"
| "loop_event dry cl scheme sk pk fee e = False"

definition loop_done ::
    "Lib \<Rightarrow> bool \<Rightarrow> Scheme \<Rightarrow> SecretKey \<Rightarrow> Digest list \<Rightarrow> event list \<Rightarrow> bool" where
  "loop_done lib dry scheme sk leasings es =
     (length (built es) = length leasings \<and>
      (if dry
       then map (signTx lib scheme sk) (built es) = map Inr (emitted es) \<and>
            map (Marshal lib) (emitted es) = map Inr (logged es) \<and>
            broadcasts es = [] \<and> tracked es = []
       else map (signTx lib scheme sk) (built es) = map Inr (broadcasts es) \<and>
            map TxID (broadcasts es) = map Some (tracked es) \<and>
            emitted es = [] \<and> logged es = []))"

definition loop_spec ::
    "Lib \<Rightarrow> bool \<Rightarrow> Client \<Rightarrow> Scheme \<Rightarrow> SecretKey \<Rightarrow> PublicKey \<Rightarrow> uint64 \<Rightarrow> Digest list \<Rightarrow>
       runerr option outcome \<Rightarrow> event list \<Rightarrow> bool" where
  "loop_spec lib dry cl scheme sk pk fee leasings out es =
     ((\<forall>e \<in> set es. loop_event dry cl scheme sk pk fee e) \<and>
      loop_inv lib dry scheme sk es \<and>
      map LeaseID (built es) = take (length (built es)) leasings \<and>
      (out = Returned None \<longrightarrow> loop_done lib dry scheme sk leasings es))"

text \<open>
  The URL of the extra-fee request, and the events of the run from the extra-fee request
  on (\<open>cancel_event\<close>, \<open>cancel_spec\<close>): the fee of the loop is the standard fee
  plus the extra fee of the answer.
\<close>

definition scriptInfoUrl :: "Lib \<Rightarrow> Client \<Rightarrow> Address \<Rightarrow> string" where
  "scriptInfoUrl lib cl addr = BaseUrl cl @ ''/addresses/scriptInfo/'' @ AddressString lib addr"

fun cancel_event ::
    "Lib \<Rightarrow> bool \<Rightarrow> Client \<Rightarrow> Scheme \<Rightarrow> SecretKey \<Rightarrow> PublicKey \<Rightarrow> Address \<Rightarrow> uint64 \<Rightarrow> event \<Rightarrow> bool" where
  "cancel_event lib dry cl scheme sk pk addr fee (CallDo cl' req rsp xf err) =
     (cl' = cl \<and> NewRequest lib ''GET'' (scriptInfoUrl lib cl addr) = Inr req \<and>
      fee = standardFee + ExtraFee xf)"
| "cancel_event lib dry cl scheme sk pk addr fee e = loop_event dry cl scheme sk pk fee e"

definition cancel_spec ::
    "Lib \<Rightarrow> bool \<Rightarrow> Client \<Rightarrow> Scheme \<Rightarrow> SecretKey \<Rightarrow> PublicKey \<Rightarrow> Address \<Rightarrow> Digest list \<Rightarrow>
       runerr option outcome \<Rightarrow> event list \<Rightarrow> bool" where
  "cancel_spec lib dry cl scheme sk pk addr leasings out es =
     (\<exists>fee. (\<forall>e \<in> set es. cancel_event lib dry cl scheme sk pk addr fee e) \<and>
            loop_inv lib dry scheme sk es \<and>
            map LeaseID (built es) = take (length (built es)) leasings \<and>
            (out = Returned None \<longrightarrow> loop_done lib dry scheme sk leasings es))"

text \<open>
  The keys and the address step 3 hands on: the secret key decodes, the public key is
  the override when there is one and the secret key's otherwise, and the address is
  that of the public key. \<open>leasings_spec\<close> is what holds of the events after the lease
  query that answered \<open>res\<close>.
\<close>

definition keys_ok :: "Lib \<Rightarrow> Flags \<Rightarrow> Scheme \<Rightarrow> SecretKey \<Rightarrow> PublicKey \<Rightarrow> Address \<Rightarrow> bool" where
  "keys_ok lib fl scheme sk pk addr =
     (NewSecretKeyFromBase58 lib (accountSK fl) = Inr sk \<and>
      NewAddressFromPublicKey lib scheme pk = Inr addr \<and>
      (if accountPK fl \<noteq> [] then NewPublicKeyFromBase58 lib (accountPK fl) = Inr pk
       else pk = GeneratePublicKey lib sk))"

definition leasings_spec ::
    "Lib \<Rightarrow> bool \<Rightarrow> Client \<Rightarrow> Scheme \<Rightarrow> SecretKey \<Rightarrow> PublicKey \<Rightarrow> Address \<Rightarrow> goerr + Lease list \<Rightarrow>
       runerr option outcome \<Rightarrow> event list \<Rightarrow> bool" where
  "leasings_spec lib dry cl scheme sk pk addr res out es =
     (\<exists>fee. (\<forall>e \<in> set es. cancel_event lib dry cl scheme sk pk addr fee e) \<and>
        loop_inv lib dry scheme sk es \<and>
        (case res of
           Inl err \<Rightarrow> built es = [] \<and> out \<noteq> Returned None
         | Inr txs \<Rightarrow>
             map Some (map LeaseID (built es)) = take (length (built es)) (map ID txs) \<and>
             (out = Returned None \<longrightarrow>
                length (built es) = length txs \<and> loop_done lib dry scheme sk (map LeaseID (built es)) es)))"

text \<open>
  The events of the steps before the lease query, and the form of the trace of a run that
  made the lease query (\<open>run_reached\<close>).
\<close>

fun early_event :: "event \<Rightarrow> bool" where
  "early_event (Log (WaitingForTransaction txid)) = False"
| "early_event (Log (CancelTransactionJSON i b)) = False"
| "early_event (Log m) = True"
| "early_event Usage = True"
| "early_event PrintVersion = True"
| "early_event (CallHeight cl err) = True"
| "early_event (CallLast cl res) = True"
| "early_event (CallParseSK scheme s) = True"
| "early_event e = False"

definition run_reached :: "Lib \<Rightarrow> Flags \<Rightarrow> runerr option outcome \<Rightarrow> event list \<Rightarrow> bool" where
  "run_reached lib fl out tr =
     (\<exists>logs cl b sk pk addr res es.
        tr = logs @
             [CallHeight cl None, Log (SuccessfullyConnected (BaseUrl cl)),
              CallLast cl (Inr b), Log (BlockchainScheme (Generator b ! 1)),
              CallParseSK (Generator b ! 1) (accountSK fl),
              Log (AccountPublicKey pk), Log (AccountAddress addr),
              CallActive cl addr res] @ es \<and>
        (\<forall>e \<in> set logs. e = Log NoDifferentPublicKey \<or> e = Log DryRunNotice) \<and>
        1 < length (Generator b) \<and>
        keys_ok lib fl (Generator b ! 1) sk pk addr \<and>
        leasings_spec lib (dryRun fl) cl (Generator b ! 1) sk pk addr res out es)"

text \<open>
  What the transactions of a successful run went through: in preview mode each was
  signed, serialized and logged; otherwise each was signed and broadcast, and the
  identifier of each was tracked.
\<close>

definition processed :: "Lib \<Rightarrow> bool \<Rightarrow> Scheme \<Rightarrow> SecretKey \<Rightarrow> event list \<Rightarrow> bool" where
  "processed lib dry scheme sk tr =
     (if dry
      then map (signTx lib scheme sk) (built tr) = map Inr (emitted tr) \<and>
           map (Marshal lib) (emitted tr) = map Inr (logged tr) \<and>
           broadcasts tr = [] \<and> tracked tr = []
      else map (signTx lib scheme sk) (built tr) = map Inr (broadcasts tr) \<and>
           map TxID (broadcasts tr) = map Some (tracked tr) \<and>
           emitted tr = [] \<and> logged tr = [])"

text \<open>
  The events of a submission: a broadcast, a status query, a sleep of the poll, and the
  line that announces the poll.
\<close>

fun submission :: "event \<Rightarrow> bool" where
  "submission (CallBroadcast cl tx err) = True"
| "submission (CallInfo cl txid rsp err) = True"
| "submission (Sleep d) = True"
| "submission (Log (WaitingForTransaction txid)) = True"
| "submission e = False"


text \<open>
  The flags with which \<^verbatim>\<open>run\<close> gets as far as step 1.
\<close>

definition flags_accepted :: "Lib \<Rightarrow> Flags \<Rightarrow> bool" where
  "flags_accepted lib fl =
     (\<not> showHelp fl \<and> \<not> showVersion fl \<and>
      \<not> (nodeURL fl = [] \<or> 1 < length (Fields lib (nodeURL fl))) \<and>
      \<not> (accountSK fl = [] \<or> 1 < length (Fields lib (accountSK fl))))"

section \<open>Example libraries, nodes and command lines\<close>

text \<open>
  A small library: every string is a URL, the only key that decodes is \<^verbatim>\<open>sk\<close> (and
  \<^verbatim>\<open>pk\<close> for a public key), an address is a version byte, the scheme and the public
  key, the identifier of a transaction is its lease identifier after a zero byte. The
  node \<open>example_node\<close> answers every request at once, lists the given leases and
  reports the given extra fee; its last block was generated on scheme 87.
\<close>

definition example_lib :: Lib where
  "example_lib =
     \<lparr>Fields = (\<lambda>s. if s = [] then [] else [s]),
      UrlParse = (\<lambda>s. Inr \<lparr>UrlScheme = [], UrlRest = s\<rparr>),
      UrlString = (\<lambda>u. UrlScheme u @ '':'' @ UrlRest u),
      NewClient = (\<lambda>s. Inr \<lparr>BaseUrl = s\<rparr>),
      NewRequest = (\<lambda>m u. Inr \<lparr>Method = m, ReqUrl = u\<rparr>),
      NewSecretKeyFromBase58 = (\<lambda>s. if s = ''sk'' then Inr [7] else Inl (ErrorString ''invalid base58'')),
      GeneratePublicKey = (\<lambda>sk. 1 # sk),
      NewPublicKeyFromBase58 = (\<lambda>s. if s = ''pk'' then Inr [9] else Inl (ErrorString ''invalid base58'')),
      NewAddressFromPublicKey = (\<lambda>scheme pk. Inr (1 # scheme # pk)),
      AddressString = (\<lambda>a. ''3P''),
      Sign = (\<lambda>scheme sk tx. Inr (0 # LeaseID tx, [sk])),
      Marshal = (\<lambda>tx. Inr ''{}''),
      FormattedString = (\<lambda>a e. ''0'')\<rparr>"

definition example_client :: Client where
  "example_client = \<lparr>BaseUrl = ''http://node''\<rparr>"

definition example_node :: "Lease list \<Rightarrow> uint64 \<Rightarrow> Node" where
  "example_node leases extra =
     \<lparr>interruptAt = None,
      latency = (\<lambda>st. 0),
      Height = (\<lambda>ctx st cl. None),
      Last = (\<lambda>ctx st cl. Inr \<lparr>Generator = [1, 87, 0]\<rparr>),
      Active = (\<lambda>ctx st cl addr. Inr leases),
      Do = (\<lambda>ctx st cl req. (Some \<lparr>StatusCode = 200\<rparr>, \<lparr>ExtraFee = extra\<rparr>, None)),
      Broadcast = (\<lambda>ctx st cl tx. None),
      Info = (\<lambda>ctx st cl txid. (Some \<lparr>StatusCode = 200\<rparr>, None))\<rparr>"

text \<open>
  Command lines: a live run, a preview, a preview with a public-key override, and a live
  run with a secret key that is not base58.
\<close>

definition example_flags :: Flags where
  "example_flags =
     \<lparr>nodeURL = ''node'', accountSK = ''sk'', accountPK = [], dryRun = False,
      showHelp = False, showVersion = False\<rparr>"

definition dry_flags :: Flags where
  "dry_flags = example_flags\<lparr>dryRun := True\<rparr>"

definition override_flags :: Flags where
  "override_flags = dry_flags\<lparr>accountPK := ''pk''\<rparr>"

definition bad_key_flags :: Flags where
  "bad_key_flags = example_flags\<lparr>accountSK := ''0OIl''\<rparr>"

text \<open>
  Leases.
\<close>

definition lease1 :: Lease where "lease1 = \<lparr>ID = Some [1], Amount = 5\<rparr>"

definition lease2 :: Lease where "lease2 = \<lparr>ID = Some [2], Amount = 6\<rparr>"

definition lease_max :: Lease where "lease_max = \<lparr>ID = Some [3], Amount = 18446744073709551615\<rparr>"

text \<open>A node that cannot be reached when the status is asked: no response, a transport error.\<close>

definition refusing_node :: Node where
  "refusing_node = (example_node [lease1] 0)
     \<lparr>Info := (\<lambda>ctx st cl txid. (None, Some (ErrorString ''connection refused'')))\<rparr>"



text \<open>A node that rejects every broadcast.\<close>

definition rejecting_node :: Node where
  "rejecting_node = (example_node [lease1, lease2] 0)
     \<lparr>Broadcast := (\<lambda>ctx st cl tx. Some (ErrorString ''rejected''))\<rparr>"

text \<open>A node that does not answer the connectivity probe.\<close>

definition unreachable_node :: Node where
  "unreachable_node = (example_node [lease1] 0)
     \<lparr>Height := (\<lambda>ctx st cl. Some (ErrorString ''connection refused''))\<rparr>"

text \<open>A run interrupted by the operator during the connectivity probe.\<close>

definition cancelled_node :: Node where
  "cancelled_node = (example_node [lease1] 0)
     \<lparr>interruptAt := Some 0, Height := (\<lambda>ctx st cl. Some ContextCanceled)\<rparr>"

text \<open>
  The trace of a run that returned.
\<close>

definition run_trace :: "('a \<times> state) option \<Rightarrow> event list" where
  "run_trace r = (case r of None \<Rightarrow> [] | Some (out, st) \<Rightarrow> trace st)"

section \<open>Lemmas\<close>

subsection \<open>The lease inventory\<close>

lemma getActiveLeasings_for_eq:
  "i + length txs = length r \<Longrightarrow> \<forall>t\<in>set txs. ID t \<noteq> None \<Longrightarrow>
   getActiveLeasings_for txs i r a =
     Returned (take i r @ map (the \<circ> ID) txs, a + sum_list (map Amount txs))"
proof (induction txs arbitrary: i r a)
  case Nil
  then show ?case by simp
next
  case (Cons tx txs)
  from Cons.prems obtain d where d: "ID tx = Some d" by auto
  have i: "i < length r" using Cons.prems by simp
  have "getActiveLeasings_for (tx # txs) i r a =
          getActiveLeasings_for txs (Suc i) (r[i := d]) (a + Amount tx)"
    using d by simp
  also have "\<dots> = Returned (take (Suc i) (r[i := d]) @ map (the \<circ> ID) txs,
                              (a + Amount tx) + sum_list (map Amount txs))"
    using Cons.prems by (intro Cons.IH) auto
  also have "take (Suc i) (r[i := d]) = take i r @ [d]"
    using i by (simp add: take_Suc_conv_app_nth)
  finally show ?case using d by (simp add: add.assoc)
qed

lemma unat_sum_list_word:
  "unat (sum_list (map Amount txs)) = sum_list (map (\<lambda>t. unat (Amount t)) txs) mod 2 ^ 64"
proof (induction txs)
  case Nil
  show ?case by simp
next
  case (Cons tx txs)
  have "unat (Amount tx + sum_list (map Amount txs)) =
          (unat (Amount tx) + unat (sum_list (map Amount txs))) mod 2 ^ 64"
    by (simp add: unat_word_ariths)
  also have "\<dots> = (unat (Amount tx) + sum_list (map (\<lambda>t. unat (Amount t)) txs)) mod 2 ^ 64"
    unfolding Cons.IH by (rule mod_add_right_eq)
  finally show ?case by simp
qed

subsection \<open>The confirmation poll\<close>

lemma track_for_shape:
  assumes "track_for w ctx cl txid st = Some y"
  shows "track_shape cl txid st y"
proof (rule track_for.raw_induct[where P = "\<lambda>w ctx cl txid st y. track_shape cl txid st y", OF _ assms])
  fix tf :: "Node \<Rightarrow> Context \<Rightarrow> Client \<Rightarrow> Digest \<Rightarrow> state \<Rightarrow> (goerr option outcome \<times> state) option"
    and w :: Node and ctx :: Context and cl txid st y
  assume IH: "\<And>w ctx cl txid st y. tf w ctx cl txid st = Some y \<Longrightarrow> track_shape cl txid st y"
  assume body: "(case Info w ctx st cl txid of (rsp, err) \<Rightarrow>
        (let st1 = request w (CallInfo cl txid rsp err) st in
         if isCanceled err then Some (Returned err, st1)
         else (case rsp of
                 None \<Rightarrow> Some (Panicked NilPointerDereference, st1)
               | Some r \<Rightarrow>
                   if StatusCode r = StatusOK then Some (Returned None, st1)
                   else tf w ctx cl txid (timeSleep Second st1)))) = Some y"
  obtain rsp err where info: "Info w ctx st cl txid = (rsp, err)" by (cases "Info w ctx st cl txid")
  let ?st1 = "request w (CallInfo cl txid rsp err) st"
  show "track_shape cl txid st y"
  proof (cases "track_again (rsp, err)")
    case False
    then have "trace (snd y) = trace st @ concat (map (track_round cl txid) []) @ [CallInfo cl txid rsp err] \<and>
           now st + length ([] :: (Response option \<times> goerr option) list) * Second \<le> now (snd y) \<and>
           track_exit rsp err (fst y)"
      using body info
      by (auto simp: request_def Let_def track_again_def track_exit_def split: option.splits if_splits)
    then show ?thesis
      unfolding track_shape_def
      by (rule_tac x = "[]" in exI, rule_tac x = rsp in exI, rule_tac x = err in exI) simp
  next
    case True
    then have "tf w ctx cl txid (timeSleep Second ?st1) = Some y"
      using body info by (auto simp: Let_def track_again_def)
    from IH[OF this] obtain polls rsp' err' where
      sh: "trace (snd y) = trace (timeSleep Second ?st1) @
             concat (map (track_round cl txid) polls) @ [CallInfo cl txid rsp' err']"
        "now (timeSleep Second ?st1) + length polls * Second \<le> now (snd y)"
        "\<forall>p \<in> set polls. track_again p"
        "track_exit rsp' err' (fst y)"
      unfolding track_shape_def by blast
    show ?thesis
      unfolding track_shape_def
      using sh True
      by (rule_tac x = "(rsp, err) # polls" in exI, rule_tac x = rsp' in exI, rule_tac x = err' in exI)
         (simp add: timeSleep_def request_def track_round_def)
  qed
qed

subsection \<open>The loop over the leases\<close>

lemma built_simps [simp]:
  "built [] = []" "built (e # es) = builtOf e @ built es" "built (es @ es') = built es @ built es'"
  by (simp_all add: built_def)

lemma broadcasts_simps [simp]:
  "broadcasts [] = []" "broadcasts (e # es) = broadcastOf e @ broadcasts es"
  "broadcasts (es @ es') = broadcasts es @ broadcasts es'"
  by (simp_all add: broadcasts_def)

lemma emitted_simps [simp]:
  "emitted [] = []" "emitted (e # es) = emittedOf e @ emitted es"
  "emitted (es @ es') = emitted es @ emitted es'"
  by (simp_all add: emitted_def)

lemma tracked_simps [simp]:
  "tracked [] = []" "tracked (e # es) = trackedOf e @ tracked es"
  "tracked (es @ es') = tracked es @ tracked es'"
  by (simp_all add: tracked_def)

lemma logged_simps [simp]:
  "logged [] = []" "logged (e # es) = loggedOf e @ logged es"
  "logged (es @ es') = logged es @ logged es'"
  by (simp_all add: logged_def)

lemma rounds_project [simp]:
  "built (concat (map (track_round cl txid) polls)) = []"
  "broadcasts (concat (map (track_round cl txid) polls)) = []"
  "emitted (concat (map (track_round cl txid) polls)) = []"
  "tracked (concat (map (track_round cl txid) polls)) = []"
  "logged (concat (map (track_round cl txid) polls)) = []"
  by (induction polls) (simp_all add: track_round_def)

lemma rounds_loop_event:
  "e \<in> set (concat (map (track_round cl txid) polls)) \<Longrightarrow> loop_event False cl scheme sk pk fee e"
  by (induction polls) (auto simp: track_round_def)

text \<open>What one call of \<^verbatim>\<open>track\<close> adds to the trace.\<close>

lemma track_events:
  assumes "track w ctx cl txid st = Some (r, st')"
  shows "\<exists>es. trace st' = trace st @ es \<and> (\<forall>e \<in> set es. loop_event False cl scheme sk pk fee e) \<and>
           built es = [] \<and> broadcasts es = [] \<and> emitted es = [] \<and> logged es = [] \<and>
           tracked es = [txid]"
proof -
  from assms have "track_shape cl txid (logf (WaitingForTransaction txid) st) (r, st')"
    unfolding track_def by (rule track_for_shape)
  then obtain polls rsp err where
    tr: "trace st' = trace st @ [Log (WaitingForTransaction txid)] @
           concat (map (track_round cl txid) polls) @ [CallInfo cl txid rsp err]"
    unfolding track_shape_def by (auto simp: logf_def emit_def)
  show ?thesis
    by (rule exI[of _ "[Log (WaitingForTransaction txid)] @
           concat (map (track_round cl txid) polls) @ [CallInfo cl txid rsp err]"])
       (auto simp: tr track_round_def)
qed

lemma loop_inv_append:
  assumes "loop_inv lib dry scheme sk es0" and "loop_inv lib dry scheme sk es1"
  shows "loop_inv lib dry scheme sk (es0 @ es1)"
  using assms by (cases dry) (simp_all add: loop_inv_def)

lemma loop_inv_no_tx:
  assumes "built es = []" and "emitted es = []" and "logged es = []" and "broadcasts es = []"
    and "tracked es = []"
  shows "loop_inv lib dry scheme sk es"
  using assms by (simp add: loop_inv_def)

lemma loop_spec_stop:
  assumes "out \<noteq> Returned None"
    and "\<forall>e \<in> set es0. loop_event dry cl scheme sk pk fee e"
    and "map LeaseID (built es0) = [lease]"
    and "loop_inv lib dry scheme sk es0"
  shows "loop_spec lib dry cl scheme sk pk fee (lease # leasings) out es0"
  using assms by (auto simp: loop_spec_def)

lemma loop_spec_step:
  assumes "loop_spec lib dry cl scheme sk pk fee leasings out es1"
    and "\<forall>e \<in> set es0. loop_event dry cl scheme sk pk fee e"
    and "built es0 = [c0]" and "LeaseID c0 = lease" and "signTx lib scheme sk c0 = Inr c"
    and "dry \<Longrightarrow> \<exists>b. emitted es0 = [c] \<and> Marshal lib c = Inr b \<and> logged es0 = [b] \<and>
                     broadcasts es0 = [] \<and> tracked es0 = []"
    and "\<not> dry \<Longrightarrow> \<exists>txid. broadcasts es0 = [c] \<and> TxID c = Some txid \<and> tracked es0 = [txid] \<and>
                     emitted es0 = [] \<and> logged es0 = []"
  shows "loop_spec lib dry cl scheme sk pk fee (lease # leasings) out (es0 @ es1)"
proof -
  have "loop_inv lib dry scheme sk es0"
    using assms(3,5,6,7) by (cases dry) (auto simp: loop_inv_def signed_of_def json_of_def)
  moreover have "loop_inv lib dry scheme sk es1"
    using assms(1) by (simp add: loop_spec_def)
  ultimately have "loop_inv lib dry scheme sk (es0 @ es1)" by (rule loop_inv_append)
  with assms show ?thesis by (cases dry) (auto simp: loop_spec_def loop_done_def)
qed

lemma signTx_fields:
  assumes "signTx lib scheme sk c0 = Inr cancel"
  shows "LeaseID cancel = LeaseID c0" and "\<exists>d. TxID cancel = Some d"
    and "Fee cancel = Fee c0" and "ChainID cancel = ChainID c0" and "SenderPK cancel = SenderPK c0"
  using assms by (auto simp: signTx_def split: sum.splits)

lemma run_for_spec:
  "run_for lib w ctx cl dry scheme sk pk fee i leasings st = Some (out, st') \<Longrightarrow>
   \<exists>es. trace st' = trace st @ es \<and> loop_spec lib dry cl scheme sk pk fee leasings out es"
proof (induction leasings arbitrary: i st)
  case Nil
  then show ?case by (simp add: loop_spec_def loop_done_def loop_inv_def)
next
  case (Cons lease leasings)
  define c0 where "c0 = NewUnsignedLeaseCancelWithProofs 2 scheme pk lease fee (timestamp st)"
  define st1 where "st1 = emit (CallSign sk c0) (emit (NewTx c0) st)"
  have c0: "LeaseID c0 = lease" "loop_event dry cl scheme sk pk fee (NewTx c0)"
    by (simp_all add: c0_def NewUnsignedLeaseCancelWithProofs_def)
  have tr1: "trace st1 = trace st @ [NewTx c0, CallSign sk c0]"
    by (simp add: st1_def emit_def)
  note prem = Cons.prems[unfolded run_for.simps, folded c0_def, unfolded Let_def, folded st1_def]
  show ?case
  proof (cases "signTx lib scheme sk c0")
    case (Inl err)
    with prem have "out = Returned (Some errFailure)"
      "trace st' = trace st @ [NewTx c0, CallSign sk c0, Log (FailedToSign err)]"
      by (auto simp: logf_def emit_def tr1)
    then show ?thesis using c0 Inl
      by (auto intro!: loop_spec_stop simp: loop_inv_def signed_of_def)
  next
    case (Inr cancel)
    note signed = Inr
    note sf = signTx_fields[OF Inr]
    show ?thesis
    proof (cases dry)
      case True
      show ?thesis
      proof (cases "Marshal lib cancel")
        case (Inl err)
        with prem signed True have "out = Returned (Some errFailure)"
          "trace st' = trace st @ [NewTx c0, CallSign sk c0, CallMarshal cancel, Log (FailedToMakeJSON err)]"
          by (auto simp: logf_def emit_def tr1)
        then show ?thesis using c0 True signed Inl
          by (auto intro!: loop_spec_stop simp: loop_inv_def signed_of_def json_of_def)
      next
        case (Inr b)
        define st2 where "st2 = logf (CancelTransactionJSON (i + 1) b) (emit (CallMarshal cancel) st1)"
        let ?es0 = "[NewTx c0, CallSign sk c0, CallMarshal cancel, Log (CancelTransactionJSON (i + 1) b)]"
        have tr2: "trace st2 = trace st @ ?es0"
          by (simp add: st2_def logf_def emit_def tr1)
        from prem signed True Inr
        have "run_for lib w ctx cl dry scheme sk pk fee (i + 1) leasings st2 = Some (out, st')"
          by (simp add: st2_def)
        from Cons.IH[OF this] obtain es1 where
          es1: "trace st' = trace st2 @ es1" "loop_spec lib dry cl scheme sk pk fee leasings out es1"
          by blast
        have "loop_spec lib dry cl scheme sk pk fee (lease # leasings) out (?es0 @ es1)"
          using es1(2)
        proof (rule loop_spec_step[where ?c0.0 = c0 and c = cancel])
          show "\<forall>e \<in> set ?es0. loop_event dry cl scheme sk pk fee e" using c0 True by simp
          show "built ?es0 = [c0]" by simp
          show "LeaseID c0 = lease" by (rule c0(1))
          show "signTx lib scheme sk c0 = Inr cancel" by (rule signed)
          show "\<exists>b. emitted ?es0 = [cancel] \<and> Marshal lib cancel = Inr b \<and> logged ?es0 = [b] \<and>
                  broadcasts ?es0 = [] \<and> tracked ?es0 = []"
            using Inr by simp
        qed (use True in simp)
        then show ?thesis using es1(1) tr2 by auto
      qed
    next
      case False
      from sf obtain txid where txid: "TxID cancel = Some txid" by blast
      define st2 where "st2 = logf (CancelTransactionID (i + 1) txid) st1"
      define berr where "berr = Broadcast w ctx st2 cl cancel"
      define st3 where "st3 = request w (CallBroadcast cl cancel berr) st2"
      have tr3: "trace st3 = trace st @ [NewTx c0, CallSign sk c0, Log (CancelTransactionID (i + 1) txid),
                    CallBroadcast cl cancel berr]"
        by (simp add: st3_def st2_def request_def logf_def emit_def tr1)
      have bc: "broadcast w ctx cl cancel st2 = (berr, st3)"
        by (simp add: broadcast_def berr_def st3_def Let_def)
      note prem2 = prem[unfolded signed sum.case, simplified False if_False txid option.case,
                        folded st2_def, unfolded bc prod.case]
      show ?thesis
      proof (cases berr)
        case (Some err)
        with prem2 have "out \<noteq> Returned None"
          "trace st' = trace st3 \<or> trace st' = trace st3 @ [Log (FailedToBroadcast err)]"
          by (auto simp: logf_def emit_def split: if_splits)
        then show ?thesis using c0 False tr3 signed
          by (auto intro!: loop_spec_stop simp: loop_inv_def signed_of_def)
      next
        case None
        with prem2 obtain r st4 where tk: "track w ctx cl txid st3 = Some (r, st4)"
          by (cases "track w ctx cl txid st3") auto
        from track_events[OF tk, of scheme sk pk fee] obtain est where
          est: "trace st4 = trace st3 @ est" "\<forall>e \<in> set est. loop_event False cl scheme sk pk fee e"
            "built est = []" "broadcasts est = []" "emitted est = []" "logged est = []"
            "tracked est = [txid]"
          by blast
        let ?es0 = "[NewTx c0, CallSign sk c0, Log (CancelTransactionID (i + 1) txid),
                    CallBroadcast cl cancel berr] @ est"
        have ev0: "\<forall>e \<in> set ?es0. loop_event dry cl scheme sk pk fee e"
          using est(2) c0 False by auto
        have b0: "map LeaseID (built ?es0) = [lease]" using est c0(1) by simp
        have i0: "loop_inv lib dry scheme sk ?es0"
          "\<And>m. loop_inv lib dry scheme sk (?es0 @ [Log (FailedToTrack m)])"
          using est False signed by (simp_all add: loop_inv_def signed_of_def)
        show ?thesis
        proof (cases "r = Returned None")
          case True
          with prem2 None tk \<open>\<not> dry\<close>
          have "run_for lib w ctx cl dry scheme sk pk fee (i + 1) leasings st4 = Some (out, st')"
            by simp
          from Cons.IH[OF this] obtain es1 where
            es1: "trace st' = trace st4 @ es1" "loop_spec lib dry cl scheme sk pk fee leasings out es1"
            by blast
          have "loop_spec lib dry cl scheme sk pk fee (lease # leasings) out (?es0 @ es1)"
            using es1(2) ev0
          proof (rule loop_spec_step[where ?c0.0 = c0 and c = cancel])
            show "built ?es0 = [c0]" using est by simp
            show "LeaseID c0 = lease" by (rule c0(1))
            show "signTx lib scheme sk c0 = Inr cancel" by (rule signed)
            show "\<exists>txid. broadcasts ?es0 = [cancel] \<and> TxID cancel = Some txid \<and> tracked ?es0 = [txid] \<and>
                    emitted ?es0 = [] \<and> logged ?es0 = []"
              using est txid by simp
          qed (use False in simp)
          then show ?thesis using es1(1) est(1) tr3 by auto
        next
          case notdone: False
          with prem2 None tk have "out \<noteq> Returned None"
            "trace st' = trace st4 \<or> (\<exists>err. trace st' = trace st4 @ [Log (FailedToTrack err)])"
            by (auto simp: logf_def emit_def split: outcome.splits option.splits if_splits)
          then show ?thesis
          proof (elim disjE exE)
            assume "out \<noteq> Returned None" "trace st' = trace st4"
            then show ?thesis using est(1) tr3 ev0 b0 i0(1)
              by (intro exI[of _ ?es0]) (auto intro!: loop_spec_stop)
          next
            fix err assume "out \<noteq> Returned None" "trace st' = trace st4 @ [Log (FailedToTrack err)]"
            then show ?thesis using est(1) tr3 ev0 b0 i0(2)[of err]
              by (intro exI[of _ "?es0 @ [Log (FailedToTrack err)]"]) (auto intro!: loop_spec_stop)
          qed
        qed
      qed
    qed
  qed
qed

subsection \<open>The steps of the run\<close>

lemma loop_event_cancel_event:
  "loop_event dry cl scheme sk pk fee e \<Longrightarrow> cancel_event lib dry cl scheme sk pk addr fee e"
  by (cases e) auto

lemma getExtraFee_trace:
  assumes "getExtraFee lib w ctx cl addr st = (r, st')"
  shows "(trace st' = trace st \<and> (\<exists>e. r = Returned (Inl e))) \<or>
         (\<exists>req rsp xf err.
            NewRequest lib ''GET'' (scriptInfoUrl lib cl addr) = Inr req \<and>
            trace st' = trace st @ [CallDo cl req rsp xf err] \<and>
            (\<forall>x. r = Returned (Inr x) \<longrightarrow> x = ExtraFee xf))"
  using assms
  by (auto simp: getExtraFee_def scriptInfoUrl_def request_def Let_def
           split: sum.splits prod.splits option.splits if_splits)

lemma run_cancel_spec:
  assumes "run_cancel lib w fl ctx cl scheme sk pk addr leasings st = Some (out, st')"
  shows "\<exists>es. trace st' = trace st @ es \<and>
              cancel_spec lib (dryRun fl) cl scheme sk pk addr leasings out es"
proof -
  obtain r st1 where gf: "getExtraFee lib w ctx cl addr st = (r, st1)"
    by (cases "getExtraFee lib w ctx cl addr st")
  note prem = assms[unfolded run_cancel_def gf prod.case]
  from getExtraFee_trace[OF gf] show ?thesis
  proof (elim disjE conjE exE)
    fix e assume "trace st1 = trace st" "r = Returned (Inl e)"
    with prem have "out \<noteq> Returned None"
      "trace st' = trace st \<or> trace st' = trace st @ [Log (FailedToCheckExtraFee addr e)]"
      by (auto simp: logf_def emit_def split: if_splits)
    then show ?thesis by (auto simp: cancel_spec_def intro!: loop_inv_no_tx)
  next
    fix req rsp xf err
    assume req: "NewRequest lib ''GET'' (scriptInfoUrl lib cl addr) = Inr req"
      and tr1: "trace st1 = trace st @ [CallDo cl req rsp xf err]"
      and x: "\<forall>x. r = Returned (Inr x) \<longrightarrow> x = ExtraFee xf"
    let ?fee = "standardFee + ExtraFee xf"
    have ev: "cancel_event lib (dryRun fl) cl scheme sk pk addr ?fee (CallDo cl req rsp xf err)"
      using req by simp
    show ?thesis
    proof (cases "\<exists>x. r = Returned (Inr x)")
      case False
      with prem have "out \<noteq> Returned None"
        "trace st' = trace st1 \<or> (\<exists>e. trace st' = trace st1 @ [Log (FailedToCheckExtraFee addr e)])"
        by (auto simp: logf_def emit_def split: if_splits outcome.splits sum.splits)
      then show ?thesis using tr1 ev
        by (auto simp: cancel_spec_def intro!: exI[of _ ?fee] loop_inv_no_tx)
    next
      case True
      with x have r: "r = Returned (Inr (ExtraFee xf))" by auto
      define st2 where "st2 = (if ExtraFee xf \<noteq> 0 then logf (ExtraFeeOnCancel (format lib (ExtraFee xf))) st1
                      else logf NoExtraFee st1)"
      obtain m where tr2: "trace st2 = trace st @ [CallDo cl req rsp xf err, Log m]"
        and m: "loggedOf (Log m) = []" "trackedOf (Log m) = []"
        by (cases "ExtraFee xf = 0") (auto simp: st2_def logf_def emit_def tr1)
      note prem2 = prem[unfolded r outcome.case sum.case Let_def, folded st2_def]
      then obtain out2 st3 where
        loop: "run_for lib w ctx cl (dryRun fl) scheme sk pk ?fee 0 leasings st2 = Some (out2, st3)"
        by (cases "run_for lib w ctx cl (dryRun fl) scheme sk pk ?fee 0 leasings st2") auto
      from run_for_spec[OF loop] obtain esl where
        esl: "trace st3 = trace st2 @ esl"
          "loop_spec lib (dryRun fl) cl scheme sk pk ?fee leasings out2 esl"
        by blast
      from prem2 loop have fin: "out = out2"
        "trace st' = (if out2 = Returned None
                      then trace st3 @ [Log (TransactionsCreated (length leasings)), Log OK]
                      else trace st3)"
        by (auto simp: logf_def emit_def split: outcome.splits option.splits)
      define tl where "tl = (if out2 = Returned None
                      then [Log (TransactionsCreated (length leasings)), Log OK] else [])"
      have tr': "trace st' = trace st @ ([CallDo cl req rsp xf err, Log m] @ esl @ tl)"
        using fin(2) esl(1) tr2 by (simp add: tl_def)
      have "cancel_spec lib (dryRun fl) cl scheme sk pk addr leasings out
              ([CallDo cl req rsp xf err, Log m] @ esl @ tl)"
        unfolding cancel_spec_def
      proof (intro exI[of _ ?fee] conjI impI ballI)
        fix e assume "e \<in> set ([CallDo cl req rsp xf err, Log m] @ esl @ tl)"
        then consider "e = CallDo cl req rsp xf err" | "\<exists>m. e = Log m \<and> (\<forall>t. m \<noteq> WaitingForTransaction t)" | "e \<in> set esl"
          using tr2 by (cases "ExtraFee xf = 0") (auto simp: tl_def st2_def logf_def emit_def tr1 split: if_splits)
        then show "cancel_event lib (dryRun fl) cl scheme sk pk addr ?fee e"
        proof cases
          case 1 then show ?thesis using ev by simp
        next
          case 2 then obtain m' where "e = Log m'" "\<forall>t. m' \<noteq> WaitingForTransaction t" by blast
          then show ?thesis by (cases m') auto
        next
          case 3 then show ?thesis using esl(2) by (auto simp: loop_spec_def intro: loop_event_cancel_event)
        qed
      next
        show "loop_inv lib (dryRun fl) scheme sk ([CallDo cl req rsp xf err, Log m] @ esl @ tl)"
          using esl(2) m by (cases "dryRun fl") (simp_all add: loop_spec_def loop_inv_def tl_def)
      next
        show "map LeaseID (built ([CallDo cl req rsp xf err, Log m] @ esl @ tl)) =
                take (length (built ([CallDo cl req rsp xf err, Log m] @ esl @ tl))) leasings"
          using esl(2) by (auto simp: loop_spec_def tl_def)
      next
        assume "out = Returned None"
        then show "loop_done lib (dryRun fl) scheme sk leasings ([CallDo cl req rsp xf err, Log m] @ esl @ tl)"
          using esl(2) fin(1) tr2 
          by (cases "ExtraFee xf = 0")
             (auto simp: loop_spec_def loop_done_def tl_def st2_def logf_def emit_def tr1 split: if_splits)
      qed
      with tr' show ?thesis by blast
    qed
  qed
qed

lemma track_for_no_panic:
  assumes "track_for w ctx cl txid st = Some y"
    and "\<forall>s. fst (Info w ctx s cl txid) \<noteq> None"
  shows "\<forall>p. fst y \<noteq> Panicked p"
proof -
  have "(\<forall>s. fst (Info w ctx s cl txid) \<noteq> None) \<longrightarrow> (\<forall>p. fst y \<noteq> Panicked p)"
  proof (rule track_for.raw_induct[where P = "\<lambda>w ctx cl txid st y.
           (\<forall>s. fst (Info w ctx s cl txid) \<noteq> None) \<longrightarrow> (\<forall>p. fst y \<noteq> Panicked p)", OF _ assms(1)])
    fix tf :: "Node \<Rightarrow> Context \<Rightarrow> Client \<Rightarrow> Digest \<Rightarrow> state \<Rightarrow> (goerr option outcome \<times> state) option"
      and w :: Node and ctx :: Context and cl txid st y
    assume IH: "\<And>w ctx cl txid st y. tf w ctx cl txid st = Some y \<Longrightarrow>
                  (\<forall>s. fst (Info w ctx s cl txid) \<noteq> None) \<longrightarrow> (\<forall>p. fst y \<noteq> Panicked p)"
    assume body: "(case Info w ctx st cl txid of (rsp, err) \<Rightarrow>
        (let st1 = request w (CallInfo cl txid rsp err) st in
         if isCanceled err then Some (Returned err, st1)
         else (case rsp of
                 None \<Rightarrow> Some (Panicked NilPointerDereference, st1)
               | Some r \<Rightarrow>
                   if StatusCode r = StatusOK then Some (Returned None, st1)
                   else tf w ctx cl txid (timeSleep Second st1)))) = Some y"
    show "(\<forall>s. fst (Info w ctx s cl txid) \<noteq> None) \<longrightarrow> (\<forall>p. fst y \<noteq> Panicked p)"
    proof
      assume present: "\<forall>s. fst (Info w ctx s cl txid) \<noteq> None"
      obtain rsp err where info: "Info w ctx st cl txid = (rsp, err)"
        by (cases "Info w ctx st cl txid")
      with present obtain r where r: "rsp = Some r" by (metis fst_conv not_None_eq)
      show "\<forall>p. fst y \<noteq> Panicked p"
      proof (cases "isCanceled err \<or> StatusCode r = StatusOK")
        case True
        with body info r show ?thesis by (auto simp: Let_def split: if_splits)
      next
        case False
        with body info r
        have "tf w ctx cl txid (timeSleep Second (request w (CallInfo cl txid rsp err) st)) = Some y"
          by (simp add: Let_def)
        from IH[OF this] present show ?thesis by blast
      qed
    qed
  qed
  with assms(2) show ?thesis by blast
qed

lemma getActiveLeasings_for_Returned:
  "getActiveLeasings_for txs i r a = Returned x \<Longrightarrow> \<forall>t \<in> set txs. ID t \<noteq> None"
  by (induction txs arbitrary: i r a) (auto simp: Let_def split: option.splits)

lemma getActiveLeasings_trace:
  assumes "getActiveLeasings w ctx cl addr st = (r, st')"
  shows "\<exists>res. trace st' = trace st @ [CallActive cl addr res] \<and>
           (case res of
              Inl err \<Rightarrow> r = Returned (Inl err)
            | Inr txs \<Rightarrow> r = Panicked NilPointerDereference \<or>
                (\<exists>ls tot. r = Returned (Inr (ls, tot)) \<and> map Some ls = map ID txs))"
proof (cases "Active w ctx st cl addr")
  case (Inl err)
  with assms show ?thesis
    by (intro exI[of _ "Inl err"]) (auto simp: getActiveLeasings_def Let_def request_def)
next
  case (Inr txs)
  let ?g = "getActiveLeasings_for txs 0 (replicate (length txs) zeroDigest) 0"
  have tr: "trace st' = trace st @ [CallActive cl addr (Inr txs)]"
    using assms Inr by (auto simp: getActiveLeasings_def Let_def request_def split: outcome.splits)
  show ?thesis
  proof (cases ?g)
    case (Panicked p)
    have "p = NilPointerDereference"
    proof -
      have "\<And>i r a. getActiveLeasings_for txs i r a = Panicked p \<Longrightarrow> p = NilPointerDereference"
        by (induction txs) (auto simp: Let_def split: option.splits)
      with Panicked show ?thesis by blast
    qed
    with Panicked assms Inr have "r = Panicked NilPointerDereference"
      by (auto simp: getActiveLeasings_def Let_def)
    with tr show ?thesis by (intro exI[of _ "Inr txs"]) simp
  next
    case (Returned x)
    from getActiveLeasings_for_Returned[OF Returned] have all: "\<forall>t \<in> set txs. ID t \<noteq> None" .
    from getActiveLeasings_for_eq[of 0 txs "replicate (length txs) zeroDigest" 0, OF _ all] Returned
    have x: "x = (map (the \<circ> ID) txs, sum_list (map Amount txs))" by simp
    have ids: "map Some (map (the \<circ> ID) txs) = map ID txs"
      using all by (induction txs) auto
    from Returned assms Inr x have "r = Returned (Inr (map (the \<circ> ID) txs, sum_list (map Amount txs)))"
      by (auto simp: getActiveLeasings_def Let_def)
    with tr ids show ?thesis by (intro exI[of _ "Inr txs"]) simp
  qed
qed

lemma run_leasings_spec:
  assumes "run_leasings lib w fl ctx cl scheme sk pk addr st = Some (out, st')"
  shows "\<exists>res es.
           trace st' = trace st @
             [Log (AccountPublicKey pk), Log (AccountAddress addr), CallActive cl addr res] @ es \<and>
           leasings_spec lib (dryRun fl) cl scheme sk pk addr res out es"
proof -
  define st1 where "st1 = logf (AccountAddress addr) (logf (AccountPublicKey pk) st)"
  have tr1: "trace st1 = trace st @ [Log (AccountPublicKey pk), Log (AccountAddress addr)]"
    by (simp add: st1_def logf_def emit_def)
  obtain r st2 where ga: "getActiveLeasings w ctx cl addr st1 = (r, st2)"
    by (cases "getActiveLeasings w ctx cl addr st1")
  from getActiveLeasings_trace[OF ga] obtain res where
    tr2: "trace st2 = trace st1 @ [CallActive cl addr res]"
    and res: "case res of
              Inl err \<Rightarrow> r = Returned (Inl err)
            | Inr txs \<Rightarrow> r = Panicked NilPointerDereference \<or>
                (\<exists>ls tot. r = Returned (Inr (ls, tot)) \<and> map Some ls = map ID txs)"
    by blast
  note prem = assms[unfolded run_leasings_def Let_def, folded st1_def, unfolded ga prod.case]
  have cev: "\<And>m fee. \<forall>t. m \<noteq> WaitingForTransaction t \<Longrightarrow>
               cancel_event lib (dryRun fl) cl scheme sk pk addr fee (Log m)"
    subgoal for m fee by (cases m) auto
    done
  show ?thesis
  proof (cases res)
    case (Inl err)
    with res prem have "out \<noteq> Returned None"
      "trace st' = trace st2 \<or> trace st' = trace st2 @ [Log (FailedToGetLeasings err)]"
      by (auto simp: logf_def emit_def split: if_splits)
    then show ?thesis using tr1 tr2 Inl
      by (auto simp: leasings_spec_def intro!: loop_inv_no_tx)
  next
    case (Inr txs)
    show ?thesis
    proof (cases "r = Panicked NilPointerDereference")
      case True
      with prem have "out \<noteq> Returned None" "trace st' = trace st2" by auto
      then show ?thesis using tr1 tr2 Inr by (auto simp: leasings_spec_def intro!: loop_inv_no_tx)
    next
      case False
      with res Inr obtain ls tot where r: "r = Returned (Inr (ls, tot))"
        and ids: "map Some ls = map ID txs" by auto
      define st3 where "st3 = logf (FoundLeasings (length ls) addr (format lib tot)) st2"
      have tr3: "trace st3 = trace st @ [Log (AccountPublicKey pk), Log (AccountAddress addr),
                   CallActive cl addr res, Log (FoundLeasings (length ls) addr (format lib tot))]"
        by (simp add: st3_def logf_def emit_def tr1 tr2)
      from prem r have "run_cancel lib w fl ctx cl scheme sk pk addr ls st3 = Some (out, st')"
        by (simp add: st3_def)
      from run_cancel_spec[OF this] obtain esc where
        esc: "trace st' = trace st3 @ esc"
          "cancel_spec lib (dryRun fl) cl scheme sk pk addr ls out esc"
        by blast
      from esc(2) obtain fee where
        fee: "\<forall>e \<in> set esc. cancel_event lib (dryRun fl) cl scheme sk pk addr fee e"
          "map LeaseID (built esc) = take (length (built esc)) ls"
          "out = Returned None \<longrightarrow> loop_done lib (dryRun fl) scheme sk ls esc"
          "loop_inv lib (dryRun fl) scheme sk esc"
        unfolding cancel_spec_def by blast
      let ?es = "Log (FoundLeasings (length ls) addr (format lib tot)) # esc"
      have len: "length ls = length txs" using ids by (metis length_map)
      have pre: "map Some (map LeaseID (built ?es)) = take (length (built ?es)) (map ID txs)"
        using fee(2) ids by (simp add: take_map[symmetric])
      have fin: "out = Returned None \<longrightarrow>
                   length (built ?es) = length txs \<and> loop_done lib (dryRun fl) scheme sk (map LeaseID (built ?es)) ?es"
      proof
        assume "out = Returned None"
        with fee(3) have ld: "loop_done lib (dryRun fl) scheme sk ls esc" by simp
        then have l: "length (built esc) = length ls" by (simp add: loop_done_def)
        with fee(2) have "map LeaseID (built esc) = ls" by simp
        with ld l len show "length (built ?es) = length txs \<and>
                 loop_done lib (dryRun fl) scheme sk (map LeaseID (built ?es)) ?es"
          by (simp add: loop_done_def)
      qed
      have "leasings_spec lib (dryRun fl) cl scheme sk pk addr res out ?es"
        unfolding leasings_spec_def using fee(1,4) pre fin Inr cev
        by (intro exI[of _ fee]) (auto simp: loop_inv_def)
      moreover have "trace st' = trace st @
             [Log (AccountPublicKey pk), Log (AccountAddress addr), CallActive cl addr res] @ ?es"
        using esc(1) tr3 by simp
      ultimately show ?thesis by blast
    qed
  qed
qed

lemma run_keys_spec:
  assumes "run_keys lib w fl ctx cl scheme st = Some (out, st')"
  shows "(\<exists>m. trace st' = trace st @ [CallParseSK scheme (accountSK fl), Log m] \<and>
              early_event (Log m) \<and> out = Returned (Some errFailure)) \<or>
         (\<exists>sk pk addr res es.
            keys_ok lib fl scheme sk pk addr \<and>
            trace st' = trace st @
              [CallParseSK scheme (accountSK fl), Log (AccountPublicKey pk),
               Log (AccountAddress addr), CallActive cl addr res] @ es \<and>
            leasings_spec lib (dryRun fl) cl scheme sk pk addr res out es)"
proof -
  define st1 where "st1 = emit (CallParseSK scheme (accountSK fl)) st"
  have tr1: "trace st1 = trace st @ [CallParseSK scheme (accountSK fl)]"
    by (simp add: st1_def emit_def)
  note prem = assms[unfolded run_keys_def Let_def, folded st1_def]
  show ?thesis
  proof (cases "\<exists>sk pk addr. keys_ok lib fl scheme sk pk addr \<and>
                  run_leasings lib w fl ctx cl scheme sk pk addr st1 = Some (out, st')")
    case True
    then obtain sk pk addr where ok: "keys_ok lib fl scheme sk pk addr"
      and rl: "run_leasings lib w fl ctx cl scheme sk pk addr st1 = Some (out, st')" by blast
    from run_leasings_spec[OF rl] tr1 ok show ?thesis by auto
  next
    case False
    with prem have "\<exists>m. trace st' = trace st1 @ [Log m] \<and> early_event (Log m) \<and>
                       out = Returned (Some errFailure)"
      by (auto simp: parseSK_def keys_ok_def logf_def emit_def Let_def
               split: sum.splits if_splits prod.splits)
    with tr1 show ?thesis by auto
  qed
qed

lemma getScheme_trace:
  assumes "getScheme w ctx cl st = (r, st')"
  shows "\<exists>res. trace st' = trace st @ [CallLast cl res] \<and>
           (\<forall>scheme. r = Returned (Inr scheme) \<longrightarrow>
              (\<exists>b. res = Inr b \<and> 1 < length (Generator b) \<and> scheme = Generator b ! 1))"
  using assms
  by (auto simp: getScheme_def Let_def request_def split: sum.splits if_splits)

lemma nodeClient_trace:
  assumes "nodeClient lib w ctx s st = (r, st')"
  shows "(trace st' = trace st \<and> (\<exists>e. r = Inl e)) \<or>
         (\<exists>cl e. trace st' = trace st @ [CallHeight cl (Some e)] \<and> r = Inl e) \<or>
         (\<exists>cl. trace st' = trace st @ [CallHeight cl None] \<and> r = Inr cl)"
proof (cases r)
  case (Inl e)
  with assms show ?thesis
    by (auto simp: nodeClient_def Let_def request_def split: sum.splits if_splits option.splits)
next
  case (Inr cl)
  with assms show ?thesis
    by (auto simp: nodeClient_def Let_def request_def split: sum.splits if_splits option.splits)
qed

lemma run_notices_trace:
  "\<exists>logs. trace (run_notices lib fl st) = trace st @ logs \<and>
          (\<forall>e \<in> set logs. e = Log NoDifferentPublicKey \<or> e = Log DryRunNotice)"
  by (auto simp: run_notices_def Let_def logf_def emit_def)

lemma run_scheme_spec:
  assumes "run_scheme lib w fl ctx cl st = Some (out, st')"
  shows "(\<exists>es. trace st' = trace st @ es \<and> (\<forall>e \<in> set es. early_event e) \<and>
               (\<forall>scheme s. CallParseSK scheme s \<in> set es \<longrightarrow>
                  s = accountSK fl \<and> out = Returned (Some errFailure))) \<or>
         (\<exists>b sk pk addr res es.
            1 < length (Generator b) \<and>
            keys_ok lib fl (Generator b ! 1) sk pk addr \<and>
            trace st' = trace st @
              [CallLast cl (Inr b), Log (BlockchainScheme (Generator b ! 1)),
               CallParseSK (Generator b ! 1) (accountSK fl), Log (AccountPublicKey pk),
               Log (AccountAddress addr), CallActive cl addr res] @ es \<and>
            leasings_spec lib (dryRun fl) cl (Generator b ! 1) sk pk addr res out es)"
proof -
  obtain r st1 where gs: "getScheme w ctx cl st = (r, st1)" by (cases "getScheme w ctx cl st")
  from getScheme_trace[OF gs] obtain res where
    tr1: "trace st1 = trace st @ [CallLast cl res]"
    and sch: "\<forall>scheme. r = Returned (Inr scheme) \<longrightarrow>
              (\<exists>b. res = Inr b \<and> 1 < length (Generator b) \<and> scheme = Generator b ! 1)"
    by (elim exE conjE)
  note prem = assms[unfolded run_scheme_def gs prod.case]
  show ?thesis
  proof (cases "\<exists>scheme. r = Returned (Inr scheme)")
    case False
    with prem have "trace st' = trace st1 \<or> (\<exists>e. trace st' = trace st1 @ [Log (FailedToAcquireScheme e)])"
      by (auto simp: logf_def emit_def split: outcome.splits sum.splits if_splits)
    with tr1 show ?thesis by auto
  next
    case True
    then obtain scheme where r: "r = Returned (Inr scheme)" by blast
    with sch obtain b where b: "res = Inr b" "1 < length (Generator b)" "scheme = Generator b ! 1"
      by blast
    define st2 where "st2 = logf (BlockchainScheme scheme) st1"
    have tr2: "trace st2 = trace st @ [CallLast cl (Inr b), Log (BlockchainScheme scheme)]"
      by (simp add: st2_def logf_def emit_def tr1 b)
    from prem r have "run_keys lib w fl ctx cl scheme st2 = Some (out, st')"
      by (simp add: st2_def)
    from run_keys_spec[OF this] show ?thesis
    proof (elim disjE exE conjE)
      fix m
      assume "trace st' = trace st2 @ [CallParseSK scheme (accountSK fl), Log m]"
        "early_event (Log m)" "out = Returned (Some errFailure)"
      then show ?thesis using tr2 by auto
    next
      fix sk pk addr res' es
      assume "keys_ok lib fl scheme sk pk addr"
        "trace st' = trace st2 @
              [CallParseSK scheme (accountSK fl), Log (AccountPublicKey pk),
               Log (AccountAddress addr), CallActive cl addr res'] @ es"
        "leasings_spec lib (dryRun fl) cl scheme sk pk addr res' out es"
      then show ?thesis using tr2 b by auto
    qed
  qed
qed

text \<open>The structure of every run that returns.\<close>

lemma run_structure:
  assumes "run lib w fl st = Some (out, st')" and "trace st = []"
  shows "((\<forall>e \<in> set (trace st'). early_event e) \<and>
          (\<forall>scheme s. CallParseSK scheme s \<in> set (trace st') \<longrightarrow>
             s = accountSK fl \<and> out = Returned (Some errFailure))) \<or>
         run_reached lib fl out (trace st')"
proof (cases "showHelp fl \<or> showVersion fl \<or> nodeURL fl = [] \<or> 1 < length (Fields lib (nodeURL fl)) \<or>
              accountSK fl = [] \<or> 1 < length (Fields lib (accountSK fl))")
  case True
  with assms have "\<exists>e. trace st' = [e] \<and> early_event e \<and> (\<forall>scheme s. e \<noteq> CallParseSK scheme s)"
    by (auto simp: run_def emit_def logf_def split: if_splits)
  then show ?thesis by auto
next
  case False
  define st2 where "st2 = run_notices lib fl st"
  from run_notices_trace[of lib fl st] assms(2) obtain logs where
    tr2: "trace st2 = logs" and logs: "\<forall>e \<in> set logs. e = Log NoDifferentPublicKey \<or> e = Log DryRunNotice"
    unfolding st2_def by auto
  have elogs: "\<forall>e \<in> set logs. early_event e" "\<forall>scheme s. CallParseSK scheme s \<notin> set logs"
    using logs by auto
  obtain r st3 where nc: "nodeClient lib w (interruptListener w) (nodeURL fl) st2 = (r, st3)"
    by (cases "nodeClient lib w (interruptListener w) (nodeURL fl) st2")
  note prem = assms(1)[unfolded run_def Let_def, folded st2_def, unfolded nc prod.case]
  from nodeClient_trace[OF nc] show ?thesis
  proof (elim disjE exE conjE)
    fix e assume "trace st3 = trace st2" "r = Inl e"
    with prem False have "trace st' = trace st2 \<or> trace st' = trace st2 @ [Log (FailedToConnect (nodeURL fl) e)]"
      by (auto simp: logf_def emit_def split: if_splits)
    with tr2 elogs have "\<forall>e \<in> set (trace st'). early_event e"
      "\<forall>scheme s. CallParseSK scheme s \<notin> set (trace st')"
      by auto
    then show ?thesis by blast
  next
    fix cl e assume "trace st3 = trace st2 @ [CallHeight cl (Some e)]" "r = Inl e"
    with prem False have "trace st' = trace st2 @ [CallHeight cl (Some e)] \<or>
        trace st' = trace st2 @ [CallHeight cl (Some e), Log (FailedToConnect (nodeURL fl) e)]"
      by (auto simp: logf_def emit_def split: if_splits)
    with tr2 elogs have "\<forall>e \<in> set (trace st'). early_event e"
      "\<forall>scheme s. CallParseSK scheme s \<notin> set (trace st')"
      by auto
    then show ?thesis by blast
  next
    fix cl assume tr3: "trace st3 = trace st2 @ [CallHeight cl None]" and r: "r = Inr cl"
    define st4 where "st4 = logf (SuccessfullyConnected (BaseUrl cl)) st3"
    have tr4: "trace st4 = logs @ [CallHeight cl None, Log (SuccessfullyConnected (BaseUrl cl))]"
      by (simp add: st4_def logf_def emit_def tr3 tr2)
    from prem False r have "run_scheme lib w fl (interruptListener w) cl st4 = Some (out, st')"
      by (simp add: st4_def)
    from run_scheme_spec[OF this] show ?thesis
    proof (elim disjE exE conjE)
      fix es
      assume "trace st' = trace st4 @ es" "\<forall>e \<in> set es. early_event e"
        "\<forall>scheme s. CallParseSK scheme s \<in> set es \<longrightarrow> s = accountSK fl \<and> out = Returned (Some errFailure)"
      then have "(\<forall>e \<in> set (trace st'). early_event e) \<and>
          (\<forall>scheme s. CallParseSK scheme s \<in> set (trace st') \<longrightarrow>
             s = accountSK fl \<and> out = Returned (Some errFailure))"
        using tr4 elogs by auto
      then show ?thesis by blast
    next
      fix b sk pk addr res es
      assume "1 < length (Generator b)" "keys_ok lib fl (Generator b ! 1) sk pk addr"
        "trace st' = trace st4 @
              [CallLast cl (Inr b), Log (BlockchainScheme (Generator b ! 1)),
               CallParseSK (Generator b ! 1) (accountSK fl), Log (AccountPublicKey pk),
               Log (AccountAddress addr), CallActive cl addr res] @ es"
        "leasings_spec lib (dryRun fl) cl (Generator b ! 1) sk pk addr res out es"
      then have "run_reached lib fl out (trace st')"
        unfolding run_reached_def using tr4 logs
        by (intro exI[of _ logs] exI[of _ cl] exI[of _ b] exI[of _ sk] exI[of _ pk] exI[of _ addr]
                  exI[of _ res] exI[of _ es]) simp
      then show ?thesis by simp
    qed
  qed
qed

subsection \<open>Runs that reached the lease query\<close>

lemma built_mem: "tx \<in> set (built es) \<longleftrightarrow> NewTx tx \<in> set es"
proof (induction es)
  case Nil
  show ?case by simp
next
  case (Cons e es)
  then show ?case by (cases e) auto
qed

lemma notices_project:
  assumes "\<forall>e \<in> set logs. e = Log NoDifferentPublicKey \<or> e = Log DryRunNotice"
  shows "built logs = []" "emitted logs = []" "broadcasts logs = []" "tracked logs = []"
    "logged logs = []"
  using assms by (induction logs) auto

lemma cancel_event_not_early:
  assumes "cancel_event lib dry cl scheme sk pk addr fee e"
  shows "(\<forall>cl' a res. e \<noteq> CallActive cl' a res) \<and> (\<forall>cl' res. e \<noteq> CallLast cl' res) \<and>
         (\<forall>cl' err. e \<noteq> CallHeight cl' err) \<and> (\<forall>s k. e \<noteq> CallParseSK s k)"
  using assms by (cases e) auto

lemma early_project:
  assumes "\<forall>e \<in> set tr. early_event e"
  shows "built tr = []" "emitted tr = []" "broadcasts tr = []" "tracked tr = []" "logged tr = []"
proof -
  have "\<And>e. early_event e \<Longrightarrow>
          builtOf e = [] \<and> emittedOf e = [] \<and> broadcastOf e = [] \<and> trackedOf e = [] \<and> loggedOf e = []"
    subgoal for e by (cases e rule: early_event.cases) auto
    done
  with assms show "built tr = []" "emitted tr = []" "broadcasts tr = []" "tracked tr = []"
    "logged tr = []"
    by (induction tr) auto
qed

text \<open>The facts about a run that reached the lease query.\<close>

lemma run_reached_facts:
  assumes "run_reached lib fl out tr"
  obtains cl b sk pk addr res es fee where
    "CallLast cl (Inr b) \<in> set tr" and "1 < length (Generator b)"
    and "keys_ok lib fl (Generator b ! 1) sk pk addr"
    and "built tr = built es" and "emitted tr = emitted es" and "broadcasts tr = broadcasts es"
    and "tracked tr = tracked es" and "logged tr = logged es"
    and "loop_inv lib (dryRun fl) (Generator b ! 1) sk tr"
    and "\<forall>e \<in> set es. cancel_event lib (dryRun fl) cl (Generator b ! 1) sk pk addr fee e"
    and "\<forall>e \<in> set tr. e \<in> set es \<or> early_event e \<or> e = CallActive cl addr res"
    and "\<forall>cl' a r. CallActive cl' a r \<in> set tr \<longrightarrow> cl' = cl \<and> a = addr \<and> r = res"
    and "case res of
           Inl err \<Rightarrow> built es = [] \<and> out \<noteq> Returned None
         | Inr txs \<Rightarrow>
             map Some (map LeaseID (built es)) = take (length (built es)) (map ID txs) \<and>
             (out = Returned None \<longrightarrow>
                length (built es) = length txs \<and>
                loop_done lib (dryRun fl) (Generator b ! 1) sk (map LeaseID (built es)) es)"
proof -
  from assms obtain logs cl b sk pk addr res es where
    tr: "tr = logs @
             [CallHeight cl None, Log (SuccessfullyConnected (BaseUrl cl)),
              CallLast cl (Inr b), Log (BlockchainScheme (Generator b ! 1)),
              CallParseSK (Generator b ! 1) (accountSK fl),
              Log (AccountPublicKey pk), Log (AccountAddress addr),
              CallActive cl addr res] @ es"
    and logs: "\<forall>e \<in> set logs. e = Log NoDifferentPublicKey \<or> e = Log DryRunNotice"
    and b: "1 < length (Generator b)"
    and ok: "keys_ok lib fl (Generator b ! 1) sk pk addr"
    and ls: "leasings_spec lib (dryRun fl) cl (Generator b ! 1) sk pk addr res out es"
    unfolding run_reached_def by (elim exE conjE)
  from ls obtain fee where
    ev: "\<forall>e \<in> set es. cancel_event lib (dryRun fl) cl (Generator b ! 1) sk pk addr fee e"
    and inv: "loop_inv lib (dryRun fl) (Generator b ! 1) sk es"
    and res: "case res of
           Inl err \<Rightarrow> built es = [] \<and> out \<noteq> Returned None
         | Inr txs \<Rightarrow>
             map Some (map LeaseID (built es)) = take (length (built es)) (map ID txs) \<and>
             (out = Returned None \<longrightarrow>
                length (built es) = length txs \<and>
                loop_done lib (dryRun fl) (Generator b ! 1) sk (map LeaseID (built es)) es)"
    unfolding leasings_spec_def by (elim exE conjE)
  note np = notices_project[OF logs]
  have elogs: "\<forall>e \<in> set logs. early_event e" using logs by auto
  have act: "\<forall>cl' a r. CallActive cl' a r \<in> set tr \<longrightarrow> cl' = cl \<and> a = addr \<and> r = res"
  proof (intro allI impI)
    fix cl' a r assume "CallActive cl' a r \<in> set tr"
    then have "CallActive cl' a r \<in> set logs \<or> CallActive cl' a r = CallActive cl addr res \<or>
               CallActive cl' a r \<in> set es"
      unfolding tr by simp blast
    moreover have "CallActive cl' a r \<notin> set logs" using logs by auto
    moreover have "CallActive cl' a r \<notin> set es"
    proof
      assume "CallActive cl' a r \<in> set es"
      with ev have "cancel_event lib (dryRun fl) cl (Generator b ! 1) sk pk addr fee (CallActive cl' a r)"
        by (rule bspec)
      then show False by simp
    qed
    ultimately show "cl' = cl \<and> a = addr \<and> r = res" by auto
  qed
  show thesis
  proof (rule that[of cl b sk pk addr es fee res])
    show "CallLast cl (Inr b) \<in> set tr" unfolding tr by simp
    show pr: "built tr = built es" "emitted tr = emitted es" "broadcasts tr = broadcasts es"
      "tracked tr = tracked es" "logged tr = logged es"
      unfolding tr using np by simp_all
    show "loop_inv lib (dryRun fl) (Generator b ! 1) sk tr"
      using inv unfolding loop_inv_def pr .
    show "\<forall>e \<in> set tr. e \<in> set es \<or> early_event e \<or> e = CallActive cl addr res"
      unfolding tr using elogs by simp blast
  qed (fact b ok ev act res)+
qed

lemma early_not_active: "early_event e \<Longrightarrow> e \<noteq> CallActive cl a r"
  by (cases e) auto

lemma early_trace_no_active:
  assumes "\<forall>e \<in> set tr. early_event e"
  shows "CallActive cl a r \<notin> set tr"
  using assms early_not_active by blast

lemma lease_order_of_run:
  assumes "run lib w fl (start t) = Some (out, st')"
    and "CallActive cl addr (Inr txs) \<in> set (trace st')"
  shows "map Some (map LeaseID (built (trace st'))) =
           take (length (built (trace st'))) (map ID txs) \<and>
         (\<exists>fee scheme. \<forall>tx \<in> set (built (trace st')). Fee tx = fee \<and> ChainID tx = scheme) \<and>
         (out = Returned None \<longrightarrow>
            length (built (trace st')) = length txs \<and>
            (\<exists>scheme sk. NewSecretKeyFromBase58 lib (accountSK fl) = Inr sk \<and>
               processed lib (dryRun fl) scheme sk (trace st')))"
proof -
  have "trace (start t) = []" by (simp add: start_def)
  from run_structure[OF assms(1) this] assms(2) early_trace_no_active
  have "run_reached lib fl out (trace st')" by blast
  then show ?thesis
  proof (rule run_reached_facts)
    fix cl' b sk pk addr' res es fee
    assume b: "built (trace st') = built es" and e: "emitted (trace st') = emitted es"
      and br: "broadcasts (trace st') = broadcasts es" and tk: "tracked (trace st') = tracked es"
      and lg: "logged (trace st') = logged es"
      and ok: "keys_ok lib fl (Generator b ! 1) sk pk addr'"
      and ev: "\<forall>e \<in> set es. cancel_event lib (dryRun fl) cl' (Generator b ! 1) sk pk addr' fee e"
      and act: "\<forall>cl'' a r. CallActive cl'' a r \<in> set (trace st') \<longrightarrow> cl'' = cl' \<and> a = addr' \<and> r = res"
      and res: "case res of
           Inl err \<Rightarrow> built es = [] \<and> out \<noteq> Returned None
         | Inr txs \<Rightarrow>
             map Some (map LeaseID (built es)) = take (length (built es)) (map ID txs) \<and>
             (out = Returned None \<longrightarrow>
                length (built es) = length txs \<and>
                loop_done lib (dryRun fl) (Generator b ! 1) sk (map LeaseID (built es)) es)"
    from act assms(2) have "res = Inr txs" by blast
    with res have pre: "map Some (map LeaseID (built es)) = take (length (built es)) (map ID txs)"
      and fin: "out = Returned None \<longrightarrow>
                length (built es) = length txs \<and>
                loop_done lib (dryRun fl) (Generator b ! 1) sk (map LeaseID (built es)) es"
      by simp_all
    have same: "\<forall>tx \<in> set (built es). Fee tx = fee \<and> ChainID tx = Generator b ! 1"
    proof
      fix tx assume "tx \<in> set (built es)"
      then have "NewTx tx \<in> set es" by (simp add: built_mem)
      with ev have "cancel_event lib (dryRun fl) cl' (Generator b ! 1) sk pk addr' fee (NewTx tx)"
        by (rule bspec)
      then show "Fee tx = fee \<and> ChainID tx = Generator b ! 1" by simp
    qed
    have proc: "out = Returned None \<longrightarrow> processed lib (dryRun fl) (Generator b ! 1) sk (trace st')"
      using fin by (simp add: processed_def loop_done_def b e br tk lg)
    have sk: "NewSecretKeyFromBase58 lib (accountSK fl) = Inr sk"
      using ok by (simp add: keys_ok_def)
    show ?thesis
      unfolding b using pre same fin proc sk b by blast
  qed
qed

lemma early_not_submission: "early_event e \<Longrightarrow> \<not> submission e"
  by (cases e rule: early_event.cases) auto

lemma dry_cancel_event_not_submission:
  "cancel_event lib True cl scheme sk pk addr fee e \<Longrightarrow> \<not> submission e"
  by (cases e rule: submission.cases) auto

lemma not_submission_project:
  assumes "\<forall>e \<in> set tr. \<not> submission e"
  shows "broadcasts tr = []" "tracked tr = []"
proof -
  have "\<And>e. \<not> submission e \<Longrightarrow> broadcastOf e = [] \<and> trackedOf e = []"
    subgoal for e by (cases e rule: submission.cases) auto
    done
  with assms show "broadcasts tr = []" "tracked tr = []"
    by (induction tr) auto
qed

text \<open>In preview mode the loop never waits for the node, so it always returns.\<close>

lemma run_for_dry_returns:
  "\<exists>r. run_for lib w ctx cl True scheme sk pk fee i leasings st = Some r"
  by (induction leasings arbitrary: i st) (auto simp: Let_def split: sum.splits)

lemma run_cancel_dry_returns:
  assumes "dryRun fl"
  shows "\<exists>r. run_cancel lib w fl ctx cl scheme sk pk addr leasings st = Some r"
proof -
  obtain r st1 where gf: "getExtraFee lib w ctx cl addr st = (r, st1)"
    by (cases "getExtraFee lib w ctx cl addr st")
  show ?thesis
  proof (cases "\<exists>x. r = Returned (Inr x)")
    case False
    then show ?thesis
      unfolding run_cancel_def gf by (auto split: outcome.splits sum.splits)
  next
    case True
    then obtain x where r: "r = Returned (Inr x)" by blast
    define st2 where "st2 = (if x \<noteq> 0 then logf (ExtraFeeOnCancel (format lib x)) st1 else logf NoExtraFee st1)"
    from run_for_dry_returns obtain out st3 where
      "run_for lib w ctx cl True scheme sk pk (standardFee + x) 0 leasings st2 = Some (out, st3)"
      by (metis surj_pair)
    then show ?thesis
      unfolding run_cancel_def gf r using assms
      by (auto simp: Let_def st2_def split: outcome.splits option.splits)
  qed
qed

lemma run_leasings_dry_returns:
  assumes "dryRun fl"
  shows "\<exists>r. run_leasings lib w fl ctx cl scheme sk pk addr st = Some r"
  unfolding run_leasings_def Let_def
  using run_cancel_dry_returns[OF assms]
  by (auto split: prod.splits outcome.splits sum.splits)

lemma run_keys_dry_returns:
  assumes "dryRun fl"
  shows "\<exists>r. run_keys lib w fl ctx cl scheme st = Some r"
  unfolding run_keys_def Let_def
  using run_leasings_dry_returns[OF assms]
  by (auto split: prod.splits sum.splits)

lemma run_scheme_dry_returns:
  assumes "dryRun fl"
  shows "\<exists>r. run_scheme lib w fl ctx cl st = Some r"
  unfolding run_scheme_def
  using run_keys_dry_returns[OF assms]
  by (auto split: prod.splits outcome.splits sum.splits)

lemma run_dry_returns:
  assumes "dryRun fl"
  shows "\<exists>r. run lib w fl st = Some r"
  unfolding run_def Let_def
  using run_scheme_dry_returns[OF assms]
  by (auto split: prod.splits sum.splits)



subsection \<open>The context of the requests\<close>


















subsection \<open>Evaluation\<close>

text \<open>
  The equations that evaluate a run at a concrete library, node and command line.
\<close>

lemmas run_eval =
  run_def run_notices_def run_scheme_def run_keys_def run_leasings_def run_cancel_def
  nodeClient_def getScheme_def parseSK_def getActiveLeasings_def getExtraFee_def
  broadcast_def track_def track_for.simps signTx_def emit_def logf_def request_def timeSleep_def
  interruptListener_def start_def timestamp_def format_def
  NewUnsignedLeaseCancelWithProofs_def standardFee_def StatusOK_def Second_def
  defaultScheme_def zeroDigest_def Let_def run_trace_def scriptInfoUrl_def flags_accepted_def

lemmas example_defs =
  example_lib_def example_node_def example_client_def example_flags_def dry_flags_def
  override_flags_def bad_key_flags_def lease1_def lease2_def lease_max_def
  rejecting_node_def unreachable_node_def cancelled_node_def

section \<open>Properties of the program\<close>

subsection \<open>The lease inventory\<close>

text \<open>
  Claim C9, as amended. When every lease the node lists carries an identifier,
  \<^verbatim>\<open>getActiveLeasings\<close> returns the identifiers in the node's order (the i-th returned
  identifier is the identifier of the i-th lease) and the sum of the amounts modulo
  \<open>2 ^ 64\<close>, which is the sum itself whenever that is below \<open>2 ^ 64\<close>; for an empty
  list it returns the empty sequence and the total 0, without error.
\<close>

theorem getActiveLeasings_order_and_wrapped_sum:
  assumes "Active w ctx st cl addr = Inr txs" and "\<forall>t \<in> set txs. ID t \<noteq> None"
  shows "\<exists>r amount.
           fst (getActiveLeasings w ctx cl addr st) = Returned (Inr (r, amount)) \<and>
           map Some r = map ID txs \<and>
           unat amount = sum_list (map (\<lambda>t. unat (Amount t)) txs) mod 2 ^ 64 \<and>
           (sum_list (map (\<lambda>t. unat (Amount t)) txs) < 2 ^ 64 \<longrightarrow>
              unat amount = sum_list (map (\<lambda>t. unat (Amount t)) txs)) \<and>
           (txs = [] \<longrightarrow> r = [] \<and> amount = 0)"
proof -
  have "getActiveLeasings_for txs 0 (replicate (length txs) zeroDigest) 0 =
          Returned (map (the \<circ> ID) txs, sum_list (map Amount txs))"
    using getActiveLeasings_for_eq[of 0 txs "replicate (length txs) zeroDigest" 0] assms(2)
    by simp
  then have res: "fst (getActiveLeasings w ctx cl addr st) =
                    Returned (Inr (map (the \<circ> ID) txs, sum_list (map Amount txs)))"
    using assms(1) by (simp add: getActiveLeasings_def Let_def)
  have ids: "map Some (map (the \<circ> ID) txs) = map ID txs"
    using assms(2) by (induction txs) auto
  show ?thesis
    using res ids unat_sum_list_word[of txs] by (intro exI conjI) auto
qed

text \<open>The theorem at a node that lists two leases, of 5 and of 6.\<close>

theorem getActiveLeasings_witness:
  "Active (example_node [lease1, lease2] 0) \<lparr>doneAt = None\<rparr> (start 0) example_client [1, 87, 9]
     = Inr [lease1, lease2] \<and>
   ID lease1 \<noteq> None \<and> ID lease2 \<noteq> None \<and>
   fst (getActiveLeasings (example_node [lease1, lease2] 0) \<lparr>doneAt = None\<rparr> example_client [1, 87, 9] (start 0))
     = Returned (Inr ([[1], [2]], 11))"
  using getActiveLeasings_order_and_wrapped_sum
          [of "example_node [lease1, lease2] 0" "\<lparr>doneAt = None\<rparr>" "start 0" example_client "[1, 87, 9]"
              "[lease1, lease2]"]
  by (simp add: example_node_def lease1_def lease2_def getActiveLeasings_def zeroDigest_def Let_def)

text \<open>
  The sum of the amounts itself is not what is returned: for two leases of
  \<open>2 ^ 64 - 1\<close> and of 5 the total returned is 4, the \<^verbatim>\<open>uint64\<close> addition having
  wrapped around.
\<close>

theorem getActiveLeasings_sum_counterexample:
  "fst (getActiveLeasings (example_node [lease_max, lease1] 0) \<lparr>doneAt = None\<rparr> example_client [1, 87, 9] (start 0))
     = Returned (Inr ([[3], [1]], 4)) \<and>
   unat (Amount lease_max) + unat (Amount lease1) = 18446744073709551620"
  by (simp add: example_node_def lease1_def lease_max_def getActiveLeasings_def zeroDigest_def Let_def)

subsection \<open>The confirmation poll\<close>

text \<open>
  Claim C10. In a round of the poll whose request returns an error other than a
  cancellation, the loop still reads the status code of the response: an absent
  response makes the program panic there, a response with status 200 ends the poll with
  success, any other response leads to the sleep and the next round. The read is safe
  only with a response present: when every request brings a response, the poll never
  panics.
\<close>

theorem track_reads_status_after_error:
  "(Info w ctx st cl txid = (rsp, Some e) \<and> \<not> errorsIsCanceled e \<longrightarrow>
      track_for w ctx cl txid st =
        (case rsp of
           None \<Rightarrow> Some (Panicked NilPointerDereference, request w (CallInfo cl txid rsp (Some e)) st)
         | Some r \<Rightarrow>
             if StatusCode r = StatusOK
             then Some (Returned None, request w (CallInfo cl txid rsp (Some e)) st)
             else track_for w ctx cl txid
                    (timeSleep Second (request w (CallInfo cl txid rsp (Some e)) st)))) \<and>
   ((\<forall>s. fst (Info w ctx s cl txid) \<noteq> None) \<longrightarrow>
      track_for w ctx cl txid st \<noteq> Some (Panicked p, st'))"
proof (intro conjI impI)
  assume "Info w ctx st cl txid = (rsp, Some e) \<and> \<not> errorsIsCanceled e"
  then show "track_for w ctx cl txid st =
        (case rsp of
           None \<Rightarrow> Some (Panicked NilPointerDereference, request w (CallInfo cl txid rsp (Some e)) st)
         | Some r \<Rightarrow>
             if StatusCode r = StatusOK
             then Some (Returned None, request w (CallInfo cl txid rsp (Some e)) st)
             else track_for w ctx cl txid
                    (timeSleep Second (request w (CallInfo cl txid rsp (Some e)) st)))"
    by (subst track_for.simps) (simp add: Let_def split: option.splits)
next
  assume "\<forall>s. fst (Info w ctx s cl txid) \<noteq> None"
  then show "track_for w ctx cl txid st \<noteq> Some (Panicked p, st')"
    using track_for_no_panic[of w ctx cl txid st "(Panicked p, st')"] by auto
qed

text \<open>
  The theorem at a node that refuses the connection (no response, a transport error),
  and at a node that answers every request.
\<close>

theorem track_reads_status_after_error_witness:
  "Info refusing_node \<lparr>doneAt = None\<rparr> (start 0) example_client [1]
     = (None, Some (ErrorString ''connection refused'')) \<and>
   \<not> errorsIsCanceled (ErrorString ''connection refused'') \<and>
   track_for refusing_node \<lparr>doneAt = None\<rparr> example_client [1] (start 0)
     = Some (Panicked NilPointerDereference,
             \<lparr>now = 0, trace = [CallInfo example_client [1] None (Some (ErrorString ''connection refused''))]\<rparr>) \<and>
   fst (Info (example_node [lease1] 0) \<lparr>doneAt = None\<rparr> (start 5) example_client [1]) \<noteq> None \<and>
   track_for (example_node [lease1] 0) \<lparr>doneAt = None\<rparr> example_client [1] (start 0)
     \<noteq> Some (Panicked NilPointerDereference, start 0)"
  using track_reads_status_after_error
          [of refusing_node "\<lparr>doneAt = None\<rparr>" "start 0" example_client "[1]" None
              "ErrorString ''connection refused''" NilPointerDereference "start 0"]
        track_reads_status_after_error
          [of "example_node [lease1] 0" "\<lparr>doneAt = None\<rparr>" "start 0" example_client "[1]" None
              "ErrorString ''connection refused''" NilPointerDereference "start 0"]
  by (simp add: refusing_node_def example_node_def request_def start_def)


text \<open>
  Claim C3 says that the poll ends only by a status 200 or by a cancellation, so that no
  other transport error aborts it. At a node that refuses the connection the request
  returns no response and an error that is not a cancellation, and the poll ends at
  once in a nil pointer dereference.
\<close>

theorem track_aborts_on_transport_error:
  "track refusing_node (interruptListener refusing_node) example_client [1] (start 0) =
     Some (Panicked NilPointerDereference,
           \<lparr>now = 0,
            trace = [Log (WaitingForTransaction [1]),
                     CallInfo example_client [1] None (Some (ErrorString ''connection refused''))]\<rparr>)"
  by (simp add: track_def track_for.simps refusing_node_def example_node_def request_def start_def
        logf_def emit_def interruptListener_def)





subsection \<open>The run\<close>

text \<open>
  Claim C1, as amended. In every run that returns, the cancellation transactions built
  are, in order, those of the first leases the inventory fetcher returned (a prefix of
  its list: the run stops at the first failure), and all of them carry one fee and one
  scheme byte. When the run returns success, exactly one transaction was built for each
  of the N leases, and each was processed: in preview mode signed, serialized and
  logged, otherwise signed, broadcast and tracked.
\<close>

theorem run_builds_in_lease_order:
  assumes "run lib w fl (start t) = Some (out, st')"
    and "CallActive cl addr (Inr txs) \<in> set (trace st')"
  shows "map Some (map LeaseID (built (trace st'))) =
           take (length (built (trace st'))) (map ID txs) \<and>
         (\<exists>fee scheme. \<forall>tx \<in> set (built (trace st')). Fee tx = fee \<and> ChainID tx = scheme) \<and>
         (out = Returned None \<longrightarrow>
            length (built (trace st')) = length txs \<and>
            (\<exists>scheme sk. NewSecretKeyFromBase58 lib (accountSK fl) = Inr sk \<and>
               processed lib (dryRun fl) scheme sk (trace st')))"
  using assms by (rule lease_order_of_run)

text \<open>
  The theorem at a node with two leases that accepts every broadcast.
\<close>

theorem run_builds_in_lease_order_witness:
  "map_option fst (run example_lib (example_node [lease1, lease2] 0) example_flags (start 0))
     = Some (Returned None) \<and>
   CallActive example_client [1, 87, 1, 7] (Inr [lease1, lease2])
     \<in> set (run_trace (run example_lib (example_node [lease1, lease2] 0) example_flags (start 0))) \<and>
   map LeaseID (built (run_trace (run example_lib (example_node [lease1, lease2] 0) example_flags (start 0))))
     = [[1], [2]] \<and>
   map Fee (built (run_trace (run example_lib (example_node [lease1, lease2] 0) example_flags (start 0))))
     = [100000, 100000] \<and>
   map ChainID (built (run_trace (run example_lib (example_node [lease1, lease2] 0) example_flags (start 0))))
     = [87, 87] \<and>
   map LeaseID (broadcasts (run_trace (run example_lib (example_node [lease1, lease2] 0) example_flags (start 0))))
     = [[1], [2]]"
proof -
  let ?r = "run example_lib (example_node [lease1, lease2] 0) example_flags (start 0)"
  have r: "?r = Some (fst (the ?r), snd (the ?r))"
    by (simp add: run_eval example_defs)
  have act: "CallActive example_client [1, 87, 1, 7] (Inr [lease1, lease2]) \<in> set (trace (snd (the ?r)))"
    by (simp add: run_eval example_defs)
  from run_builds_in_lease_order[OF r act] show ?thesis
    by (simp add: run_eval example_defs)
qed

text \<open>
  Not every run builds a transaction for each lease: at a node that lists two leases
  and rejects the first broadcast the run returns the failure after one transaction.
\<close>

theorem run_stops_at_first_failure_counterexample:
  "Active rejecting_node (interruptListener rejecting_node) (start 0) example_client [1, 87, 1, 7]
     = Inr [lease1, lease2] \<and>
   map_option fst (run example_lib rejecting_node example_flags (start 0))
     = Some (Returned (Some errFailure)) \<and>
   map LeaseID (built (run_trace (run example_lib rejecting_node example_flags (start 0)))) = [[1]]"
  by (simp add: run_eval example_defs)

text \<open>
  Claim C2, as amended. The fee of every cancellation transaction is the \<^verbatim>\<open>uint64\<close>
  sum of the base fee 100000 and the surcharge the extra-fee query returned, that is
  their sum modulo \<open>2 ^ 64\<close>: it is the base fee plus the surcharge whenever the
  surcharge is below \<open>2 ^ 64 - 100000\<close>, and the base fee exactly when the surcharge
  is 0.
\<close>

theorem run_fee_is_base_plus_surcharge_mod:
  assumes "run lib w fl (start t) = Some (out, st')"
    and "CallDo cl req rsp xf err \<in> set (trace st')"
    and "NewTx tx \<in> set (trace st')"
  shows "Fee tx = standardFee + ExtraFee xf \<and>
         unat (Fee tx) = (100000 + unat (ExtraFee xf)) mod 2 ^ 64 \<and>
         (unat (ExtraFee xf) < 2 ^ 64 - 100000 \<longrightarrow> unat (Fee tx) = 100000 + unat (ExtraFee xf)) \<and>
         (ExtraFee xf = 0 \<longrightarrow> Fee tx = 100000)"
proof -
  have "trace (start t) = []" by (simp add: start_def)
  from run_structure[OF assms(1) this]
  have "(\<forall>e \<in> set (trace st'). early_event e) \<or> run_reached lib fl out (trace st')" by blast
  moreover have "\<not> (\<forall>e \<in> set (trace st'). early_event e)"
  proof
    assume "\<forall>e \<in> set (trace st'). early_event e"
    then have "early_event (NewTx tx)" using assms(3) by (rule bspec)
    then show False by simp
  qed
  ultimately have "run_reached lib fl out (trace st')" by blast
  then have fee: "Fee tx = standardFee + ExtraFee xf"
  proof (rule run_reached_facts)
    fix cl' b sk pk addr' res es fee
    assume ev: "\<forall>e \<in> set es. cancel_event lib (dryRun fl) cl' (Generator b ! 1) sk pk addr' fee e"
      and mem: "\<forall>e \<in> set (trace st'). e \<in> set es \<or> early_event e \<or> e = CallActive cl' addr' res"
    from mem assms(2) have "CallDo cl req rsp xf err \<in> set es" by fastforce
    with ev have "cancel_event lib (dryRun fl) cl' (Generator b ! 1) sk pk addr' fee (CallDo cl req rsp xf err)"
      by (rule bspec)
    then have 1: "fee = standardFee + ExtraFee xf" by simp
    from mem assms(3) have "NewTx tx \<in> set es" by fastforce
    with ev have "cancel_event lib (dryRun fl) cl' (Generator b ! 1) sk pk addr' fee (NewTx tx)"
      by (rule bspec)
    then have "Fee tx = fee" by simp
    with 1 show ?thesis by simp
  qed
  have u: "unat (Fee tx) = (100000 + unat (ExtraFee xf)) mod 2 ^ 64"
    unfolding fee standardFee_def by (simp add: unat_word_ariths)
  show ?thesis
    using fee u by (auto simp: standardFee_def)
qed

text \<open>
  The theorem at a node whose surcharge is 7.
\<close>

theorem run_fee_is_base_plus_surcharge_mod_witness:
  "map_option fst (run example_lib (example_node [lease1] 7) dry_flags (start 0)) = Some (Returned None) \<and>
   CallDo example_client \<lparr>Method = ''GET'', ReqUrl = ''http://node/addresses/scriptInfo/3P''\<rparr>
       (Some \<lparr>StatusCode = 200\<rparr>) \<lparr>ExtraFee = 7\<rparr> None
     \<in> set (run_trace (run example_lib (example_node [lease1] 7) dry_flags (start 0))) \<and>
   NewTx \<lparr>Version = 2, ChainID = 87, SenderPK = [1, 7], LeaseID = [1], Fee = 100007,
          Timestamp = 0, TxID = None, Proofs = []\<rparr>
     \<in> set (run_trace (run example_lib (example_node [lease1] 7) dry_flags (start 0))) \<and>
   map Fee (built (run_trace (run example_lib (example_node [lease1] 7) dry_flags (start 0)))) = [100007]"
proof -
  let ?r = "run example_lib (example_node [lease1] 7) dry_flags (start 0)"
  let ?tx = "\<lparr>Version = 2, ChainID = 87, SenderPK = [1, 7], LeaseID = [1], Fee = 100007,
          Timestamp = 0, TxID = None, Proofs = []\<rparr>"
  have r: "?r = Some (fst (the ?r), snd (the ?r))"
    by (simp add: run_eval example_defs)
  have do: "CallDo example_client \<lparr>Method = ''GET'', ReqUrl = ''http://node/addresses/scriptInfo/3P''\<rparr>
       (Some \<lparr>StatusCode = 200\<rparr>) \<lparr>ExtraFee = 7\<rparr> None \<in> set (trace (snd (the ?r)))"
    by (simp add: run_eval example_defs)
  have tx: "NewTx ?tx \<in> set (trace (snd (the ?r)))"
    by (simp add: run_eval example_defs)
  from run_fee_is_base_plus_surcharge_mod[OF r do tx] show ?thesis
    by (simp add: run_eval example_defs)
qed

text \<open>
  For the surcharge \<open>2 ^ 64 - 1\<close> the fee stamped on the transaction is 99999, not
  the base fee plus the surcharge.
\<close>

theorem run_fee_wraps_counterexample:
  "CallDo example_client \<lparr>Method = ''GET'', ReqUrl = ''http://node/addresses/scriptInfo/3P''\<rparr>
       (Some \<lparr>StatusCode = 200\<rparr>) \<lparr>ExtraFee = 18446744073709551615\<rparr> None
     \<in> set (run_trace (run example_lib (example_node [lease1] 18446744073709551615) dry_flags (start 0))) \<and>
   map unat (map Fee (built (run_trace
      (run example_lib (example_node [lease1] 18446744073709551615) dry_flags (start 0))))) = [99999] \<and>
   unat standardFee + unat (18446744073709551615 :: uint64) = 18446744073709651615"
  by (simp add: run_eval example_defs)

text \<open>
  Claim C4. A run in preview mode always returns, and it sends no broadcast and no
  status query, never sleeps and tracks nothing, whatever the leases. The transactions
  it serializes are the signed forms of the transactions it built, and the lines it
  emits are the serializations; when it succeeds after the lease query, there is one
  for each lease.
\<close>

theorem dry_run_submits_nothing:
  assumes "dryRun fl"
  shows "\<exists>out st'.
           run lib w fl (start t) = Some (out, st') \<and>
           (\<forall>e \<in> set (trace st'). \<not> submission e) \<and>
           broadcasts (trace st') = [] \<and> tracked (trace st') = [] \<and>
           (\<exists>scheme sk. emitted (trace st') =
                           concat (map (signed_of lib scheme sk) (built (trace st')))) \<and>
           logged (trace st') = concat (map (json_of lib) (emitted (trace st'))) \<and>
           (\<forall>cl addr txs. CallActive cl addr (Inr txs) \<in> set (trace st') \<and> out = Returned None \<longrightarrow>
              length (emitted (trace st')) = length txs \<and>
              map (Marshal lib) (emitted (trace st')) = map Inr (logged (trace st')))"
proof -
  from run_dry_returns[OF assms] obtain out st' where
    run: "run lib w fl (start t) = Some (out, st')" by (metis surj_pair)
  have "trace (start t) = []" by (simp add: start_def)
  note str = run_structure[OF run this]
  have nosub: "\<forall>e \<in> set (trace st'). \<not> submission e"
  proof (cases "run_reached lib fl out (trace st')")
    case False
    with str show ?thesis using early_not_submission by blast
  next
    case True
    then show ?thesis
    proof (rule run_reached_facts)
      fix cl b sk pk addr res es fee
      assume ev: "\<forall>e \<in> set es. cancel_event lib (dryRun fl) cl (Generator b ! 1) sk pk addr fee e"
        and mem: "\<forall>e \<in> set (trace st'). e \<in> set es \<or> early_event e \<or> e = CallActive cl addr res"
      show ?thesis
      proof
        fix e assume "e \<in> set (trace st')"
        with mem consider "e \<in> set es" | "early_event e" | "e = CallActive cl addr res" by blast
        then show "\<not> submission e"
        proof cases
          case 1
          with ev have "cancel_event lib (dryRun fl) cl (Generator b ! 1) sk pk addr fee e" by (rule bspec)
          with assms show ?thesis by (simp add: dry_cancel_event_not_submission)
        next
          case 2 then show ?thesis by (rule early_not_submission)
        next
          case 3 then show ?thesis by simp
        qed
      qed
    qed
  qed
  have inv: "(\<exists>scheme sk. emitted (trace st') =
                           concat (map (signed_of lib scheme sk) (built (trace st')))) \<and>
             logged (trace st') = concat (map (json_of lib) (emitted (trace st')))"
  proof (cases "run_reached lib fl out (trace st')")
    case False
    with str have "\<forall>e \<in> set (trace st'). early_event e" by blast
    from early_project[OF this] show ?thesis by simp
  next
    case True
    then show ?thesis
    proof (rule run_reached_facts)
      fix b sk
      assume "loop_inv lib (dryRun fl) (Generator b ! 1) sk (trace st')"
      with assms show ?thesis by (auto simp: loop_inv_def)
    qed
  qed
  have fin: "\<forall>cl addr txs. CallActive cl addr (Inr txs) \<in> set (trace st') \<and> out = Returned None \<longrightarrow>
              length (emitted (trace st')) = length txs \<and>
              map (Marshal lib) (emitted (trace st')) = map Inr (logged (trace st'))"
  proof (intro allI impI, elim conjE)
    fix cl addr txs
    assume act: "CallActive cl addr (Inr txs) \<in> set (trace st')" and ok: "out = Returned None"
    from lease_order_of_run[OF run act] ok assms
    show "length (emitted (trace st')) = length txs \<and>
              map (Marshal lib) (emitted (trace st')) = map Inr (logged (trace st'))"
      by (auto simp: processed_def dest: map_eq_imp_length_eq)
  qed
  from run nosub not_submission_project[OF nosub] inv fin show ?thesis by blast
qed

text \<open>
  The theorem at a node with two leases.
\<close>

theorem dry_run_submits_nothing_witness:
  "dryRun dry_flags \<and>
   map_option fst (run example_lib (example_node [lease1, lease2] 0) dry_flags (start 0))
     = Some (Returned None) \<and>
   broadcasts (run_trace (run example_lib (example_node [lease1, lease2] 0) dry_flags (start 0))) = [] \<and>
   tracked (run_trace (run example_lib (example_node [lease1, lease2] 0) dry_flags (start 0))) = [] \<and>
   map LeaseID (emitted (run_trace (run example_lib (example_node [lease1, lease2] 0) dry_flags (start 0))))
     = [[1], [2]] \<and>
   logged (run_trace (run example_lib (example_node [lease1, lease2] 0) dry_flags (start 0)))
     = [''{}'', ''{}'']"
  using dry_run_submits_nothing[of dry_flags example_lib "example_node [lease1, lease2] 0" 0]
  by (simp add: run_eval example_defs)

text \<open>
  Claim C6, as amended. When the secret key does not decode, step 3 of the run returns
  \<^verbatim>\<open>errFailure\<close>, the generic operation failure (exit code 70), and so does every run
  that reaches the key derivation. The program has no error of its own for a malformed
  key.
\<close>

theorem malformed_secret_key_is_operation_failure:
  assumes "NewSecretKeyFromBase58 lib (accountSK fl) = Inl err"
  shows "run_keys lib w fl ctx cl scheme st =
           Some (Returned (Some errFailure),
                 logf (FailedToParsePrivateKey err) (emit (CallParseSK scheme (accountSK fl)) st)) \<and>
         exitCode (Some errFailure) = 70 \<and>
         (\<forall>t out st' scheme' s.
            run lib w fl (start t) = Some (out, st') \<and> CallParseSK scheme' s \<in> set (trace st') \<longrightarrow>
            out = Returned (Some errFailure))"
proof (intro conjI allI impI)
  show "run_keys lib w fl ctx cl scheme st =
           Some (Returned (Some errFailure),
                 logf (FailedToParsePrivateKey err) (emit (CallParseSK scheme (accountSK fl)) st))"
    using assms by (simp add: run_keys_def parseSK_def Let_def)
  show "exitCode (Some errFailure) = 70" by simp
next
  fix t out st' scheme' s
  assume h: "run lib w fl (start t) = Some (out, st') \<and> CallParseSK scheme' s \<in> set (trace st')"
  have "trace (start t) = []" by (simp add: start_def)
  from run_structure[OF conjunct1[OF h] this] show "out = Returned (Some errFailure)"
  proof
    assume "(\<forall>e \<in> set (trace st'). early_event e) \<and>
          (\<forall>scheme s. CallParseSK scheme s \<in> set (trace st') \<longrightarrow>
             s = accountSK fl \<and> out = Returned (Some errFailure))"
    with h show ?thesis by blast
  next
    assume "run_reached lib fl out (trace st')"
    then show ?thesis
    proof (rule run_reached_facts)
      fix b sk pk addr
      assume "keys_ok lib fl (Generator b ! 1) sk pk addr"
      with assms show ?thesis by (simp add: keys_ok_def)
    qed
  qed
qed

text \<open>
  The theorem at a key that is not base58.
\<close>

theorem malformed_secret_key_is_operation_failure_witness:
  "NewSecretKeyFromBase58 example_lib (accountSK bad_key_flags) = Inl (ErrorString ''invalid base58'') \<and>
   map_option fst (run example_lib (example_node [lease1] 0) bad_key_flags (start 0))
     = Some (Returned (Some errFailure)) \<and>
   CallParseSK 87 ''0OIl''
     \<in> set (run_trace (run example_lib (example_node [lease1] 0) bad_key_flags (start 0)))"
  using malformed_secret_key_is_operation_failure
          [of example_lib bad_key_flags "ErrorString ''invalid base58''" "example_node [lease1] 0"
              "interruptListener (example_node [lease1] 0)" example_client 87 "start 0"]
  by (simp add: run_eval example_defs)

text \<open>
  The outcome of a malformed key is not distinct: an unreachable node and a rejected
  broadcast end the run with the same error.
\<close>

theorem key_failure_is_not_distinct_counterexample:
  "map_option fst (run example_lib (example_node [lease1] 0) bad_key_flags (start 0))
     = Some (Returned (Some errFailure)) \<and>
   map_option fst (run example_lib unreachable_node example_flags (start 0))
     = Some (Returned (Some errFailure)) \<and>
   map_option fst (run example_lib rejecting_node example_flags (start 0))
     = Some (Returned (Some errFailure))"
  by (simp add: run_eval example_defs)

text \<open>
  Claim C7, as amended. When the flags are accepted and \<^verbatim>\<open>nodeClient\<close> returns an
  error (the height query failed, or the URL was refused), the run returns at once,
  before any key derivation: with \<^verbatim>\<open>errUserTermination\<close> when the error is a
  cancellation, with \<^verbatim>\<open>errFailure\<close> otherwise.
\<close>

theorem failed_probe_stops_before_key_derivation:
  assumes "flags_accepted lib fl"
    and "nodeClient lib w (interruptListener w) (nodeURL fl) (run_notices lib fl (start t)) = (Inl err, st3)"
  shows "\<exists>st'. run lib w fl (start t) =
                  Some (Returned (Some (if errorsIsCanceled err then errUserTermination else errFailure)), st') \<and>
               (\<forall>scheme s. CallParseSK scheme s \<notin> set (trace st')) \<and>
               (\<forall>e \<in> set (trace st'). early_event e)"
proof -
  define st' where "st' = (if errorsIsCanceled err then st3 else logf (FailedToConnect (nodeURL fl) err) st3)"
  have run: "run lib w fl (start t) =
          Some (Returned (Some (if errorsIsCanceled err then errUserTermination else errFailure)), st')"
    using assms by (simp add: run_def flags_accepted_def Let_def st'_def)
  have "trace (start t) = []" by (simp add: start_def)
  with run_notices_trace[of lib fl "start t"] obtain logs where
    tr2: "trace (run_notices lib fl (start t)) = logs"
    and logs: "\<forall>e \<in> set logs. e = Log NoDifferentPublicKey \<or> e = Log DryRunNotice"
    by auto
  from nodeClient_trace[OF assms(2)] tr2
  have "trace st3 = logs \<or> (\<exists>cl e. trace st3 = logs @ [CallHeight cl (Some e)])" by auto
  then have "\<exists>es. trace st' = logs @ es \<and> (\<forall>e \<in> set es. early_event e \<and> (\<forall>scheme s. e \<noteq> CallParseSK scheme s))"
    by (auto simp: st'_def logf_def emit_def)
  then obtain es where "trace st' = logs @ es"
    "\<forall>e \<in> set es. early_event e \<and> (\<forall>scheme s. e \<noteq> CallParseSK scheme s)" by blast
  with logs have "(\<forall>scheme s. CallParseSK scheme s \<notin> set (trace st')) \<and>
               (\<forall>e \<in> set (trace st'). early_event e)"
    by auto
  with run show ?thesis by blast
qed

text \<open>
  The theorem at a node that refuses the connection.
\<close>

theorem failed_probe_stops_before_key_derivation_witness:
  "flags_accepted example_lib example_flags \<and>
   nodeClient example_lib unreachable_node (interruptListener unreachable_node) (nodeURL example_flags)
       (run_notices example_lib example_flags (start 0))
     = (Inl (ErrorString ''connection refused''),
        \<lparr>now = 0,
         trace = [Log NoDifferentPublicKey,
                  CallHeight example_client (Some (ErrorString ''connection refused''))]\<rparr>) \<and>
   run example_lib unreachable_node example_flags (start 0)
     = Some (Returned (Some errFailure),
             \<lparr>now = 0,
              trace = [Log NoDifferentPublicKey,
                       CallHeight example_client (Some (ErrorString ''connection refused'')),
                       Log (FailedToConnect ''node'' (ErrorString ''connection refused''))]\<rparr>)"
proof -
  have fa: "flags_accepted example_lib example_flags"
    by (simp add: run_eval example_defs)
  have nc: "nodeClient example_lib unreachable_node (interruptListener unreachable_node) (nodeURL example_flags)
       (run_notices example_lib example_flags (start 0))
     = (Inl (ErrorString ''connection refused''),
        \<lparr>now = 0,
         trace = [Log NoDifferentPublicKey,
                  CallHeight example_client (Some (ErrorString ''connection refused''))]\<rparr>)"
    by (simp add: run_eval example_defs)
  from failed_probe_stops_before_key_derivation[OF fa nc] fa nc show ?thesis
    by (simp add: run_eval example_defs)
qed

text \<open>
  A probe that fails because the operator interrupted it does not end the run with the
  failure outcome: the run returns the user termination (exit code 130).
\<close>

theorem cancelled_probe_is_user_termination_counterexample:
  "Height cancelled_node (interruptListener cancelled_node)
       (run_notices example_lib example_flags (start 0)) example_client
     = Some ContextCanceled \<and>
   run example_lib cancelled_node example_flags (start 0)
     = Some (Returned (Some errUserTermination),
             \<lparr>now = 0,
              trace = [Log NoDifferentPublicKey, CallHeight example_client (Some ContextCanceled)]\<rparr>) \<and>
   exitCode (Some errUserTermination) = 130 \<and> exitCode (Some errFailure) = 70"
  by (simp add: run_eval example_defs)



end
